theory Spec2Isabelle
  imports Main "HOL-Library.Sublist"
begin

text \<open>
  A model of the blog's two implementations: the SQL-backed one (app.js, db.js,
  routes.js, email.js) and the file-backed one (server.js). Pure helpers are functions,
  a handler takes the request data and the stored state and returns its response with
  the new state, a rejected promise or a failed statement is the \<open>Inl\<close> of a sum, and
  what the outside world answers (mail providers, clocks, the slug library) is an
  argument.
\<close>

section \<open>JavaScript string primitives\<close>

text \<open>
  A JavaScript string is a sequence of code units. The model covers the code units
  0..255 (type \<^typ>\<open>char\<close>); over that range the functions below are the ECMAScript
  ones: \<open>\s\<close> and \<open>trim\<close> use the same white space set (TAB, LF, VT, FF, CR, SP, NBSP),
  \<open>toLowerCase\<close> maps A-Z and the Latin-1 capitals, and case-insensitive matching
  against an ASCII pattern character folds ASCII letters only (a code unit above 127
  never canonicalizes to one below 128).
\<close>

definition is_space :: "char \<Rightarrow> bool" where
  "is_space c = (c \<in> set [CHR 0x09, CHR 0x0A, CHR 0x0B, CHR 0x0C, CHR 0x0D, CHR 0x20, CHR 0xA0])"

definition trim :: "string \<Rightarrow> string" where
  "trim s = rev (dropWhile is_space (rev (dropWhile is_space s)))"

definition lower_char :: "char \<Rightarrow> char" where
  "lower_char c =
     (let n = (of_char c :: nat) in
      if (65 \<le> n \<and> n \<le> 90) \<or> (192 \<le> n \<and> n \<le> 222 \<and> n \<noteq> 215)
      then char_of (n + 32) else c)"

definition toLowerCase :: "string \<Rightarrow> string" where
  "toLowerCase s = map lower_char s"

definition canonicalize :: "char \<Rightarrow> char" where
  "canonicalize c =
     (let n = (of_char c :: nat) in if 97 \<le> n \<and> n \<le> 122 then char_of (n - 32) else c)"

definition ci_prefix :: "string \<Rightarrow> string \<Rightarrow> bool" where
  "ci_prefix p s = prefix (map canonicalize p) (map canonicalize s)"

text \<open>\<open>s.replace(/c/g, r)\<close> for a single-character pattern.\<close>

definition replace_char :: "char \<Rightarrow> string \<Rightarrow> string \<Rightarrow> string" where
  "replace_char c r s = concat (map (\<lambda>d. if d = c then r else [d]) s)"

text \<open>\<open>re.test(s)\<close> for a pattern without the global flag: a match at some position.\<close>

fun regex_test :: "(string \<Rightarrow> bool) \<Rightarrow> string \<Rightarrow> bool" where
  "regex_test at [] = at []"
| "regex_test at (c # cs) = (at (c # cs) \<or> regex_test at cs)"

section \<open>routes.js: slugify\<close>

definition is_sep :: "char \<Rightarrow> bool" where
  "is_sep c = (is_space c \<or> c = CHR ''-'')"

definition slug_char :: "char \<Rightarrow> bool" where
  "slug_char c =
     (let n = (of_char c :: nat) in
      (97 \<le> n \<and> n \<le> 122) \<or> (48 \<le> n \<and> n \<le> 57) \<or> is_sep c)"

function collapse_seps :: "string \<Rightarrow> string" where
  "collapse_seps [] = []"
| "collapse_seps (c # cs) =
     (if is_sep c then CHR ''-'' # collapse_seps (dropWhile is_sep cs)
      else c # collapse_seps cs)"
  by pat_completeness auto
termination
  by (relation "measure length") (auto simp: less_Suc_eq_le length_dropWhile_le)

definition strip_hyphens :: "string \<Rightarrow> string" where
  "strip_hyphens s =
     rev (dropWhile (\<lambda>c. c = CHR ''-'') (rev (dropWhile (\<lambda>c. c = CHR ''-'') s)))"

definition slugify :: "string \<Rightarrow> string" where
  "slugify text0 = strip_hyphens (collapse_seps (filter slug_char (trim (toLowerCase text0))))"

section \<open>routes.js: renderContentToHtml\<close>

definition escapeHtml :: "string \<Rightarrow> string" where
  "escapeHtml s =
     replace_char (CHR ''>'') ''&gt;''
       (replace_char (CHR ''<'') ''&lt;'' (replace_char (CHR ''&'') ''&amp;'' s))"

text \<open>
  \<open>urlRegex = /(https?:\/\/[^\s]+)/g\<close>. \<open>urlRegex_at s\<close> is the match that starts at
  the first character of \<open>s\<close>, if there is one: the scheme, then the longest run of
  non-space characters, which must not be empty.
\<close>

definition urlRegex_at :: "string \<Rightarrow> string option" where
  "urlRegex_at s =
     (if prefix ''http://'' s then
        (let run = takeWhile (\<lambda>c. \<not> is_space c) (drop 7 s)
         in if run = [] then None else Some (''http://'' @ run))
      else if prefix ''https://'' s then
        (let run = takeWhile (\<lambda>c. \<not> is_space c) (drop 8 s)
         in if run = [] then None else Some (''https://'' @ run))
      else None)"

text \<open>
  A global regular expression cuts a string into its successive leftmost matches and
  the characters between them; \<open>match\<close> returns the matches, \<open>replace\<close> rewrites them.
\<close>

datatype piece = Lit char | Url string

function url_pieces :: "string \<Rightarrow> piece list" where
  "url_pieces [] = []"
| "url_pieces (c # cs) =
     (case urlRegex_at (c # cs) of
        None \<Rightarrow> Lit c # url_pieces cs
      | Some m \<Rightarrow> Url m # url_pieces (drop (length m) (c # cs)))"
  by pat_completeness auto
termination
  by (relation "measure length") (auto simp: urlRegex_at_def Let_def split: if_splits)

definition match_urlRegex :: "string \<Rightarrow> string list" where
  "match_urlRegex s = concat (map (\<lambda>p. case p of Lit c \<Rightarrow> [] | Url m \<Rightarrow> [m]) (url_pieces s))"

definition replace_urlRegex :: "(string \<Rightarrow> string) \<Rightarrow> string \<Rightarrow> string" where
  "replace_urlRegex f s =
     concat (map (\<lambda>p. case p of Lit c \<Rightarrow> [c] | Url m \<Rightarrow> f m) (url_pieces s))"

text \<open>
  \<open>imageRegex = /(https?:\/\/[^\s]+\.(?:png|jpg|jpeg|gif|webp))/i\<close>: the scheme, \<open>k \<ge> 1\<close>
  non-space characters, a dot and an extension, all compared case-insensitively.
\<close>

definition image_exts :: "string list" where
  "image_exts = [''png'', ''jpg'', ''jpeg'', ''gif'', ''webp'']"

definition image_tail :: "string \<Rightarrow> bool" where
  "image_tail r =
     list_ex (\<lambda>k. list_all (\<lambda>c. \<not> is_space c) (take k r) \<and>
                     list_ex (\<lambda>e. ci_prefix (CHR ''.'' # e) (drop k r)) image_exts)
       [1..<Suc (length r)]"

definition imageRegex_at :: "string \<Rightarrow> bool" where
  "imageRegex_at s =
     list_ex (\<lambda>p. ci_prefix p s \<and> image_tail (drop (length p) s)) [''http://'', ''https://'']"

text \<open>\<open>/(\.png|\.jpg|\.jpeg|\.gif|\.webp)(\?|#|$)/i\<close>, tested on a matched URL.\<close>

definition isImg_at :: "string \<Rightarrow> bool" where
  "isImg_at s =
     list_ex (\<lambda>e. ci_prefix (CHR ''.'' # e) s \<and>
        (case drop (Suc (length e)) s of [] \<Rightarrow> True | d # _ \<Rightarrow> d = CHR ''?'' \<or> d = CHR ''#''))
       image_exts"

definition image_div :: "string \<Rightarrow> string" where
  "image_div src =
     ''<div class=\"post-image\"><img src=\"'' @ src @ ''\" alt=\"image\" loading=\"lazy\"/></div>''"

definition linkify :: "string \<Rightarrow> string" where
  "linkify url =
     (if regex_test isImg_at url then image_div (escapeHtml url)
      else ''<a href=\"'' @ escapeHtml url @ ''\" target=\"_blank\" rel=\"noopener noreferrer\">''
           @ escapeHtml url @ ''</a>'')"

definition render_line :: "string \<Rightarrow> string" where
  "render_line line =
     (let trimmed = trim line in
      if trimmed = [] then ''<br/>''
      else if regex_test imageRegex_at trimmed \<and>
              (case match_urlRegex trimmed of [] \<Rightarrow> False | m # _ \<Rightarrow> m = trimmed)
      then image_div (escapeHtml trimmed)
      else ''<p>'' @ replace_urlRegex linkify (escapeHtml line) @ ''</p>'')"

text \<open>\<open>content.split(/\r?\n/)\<close> and \<open>htmlLines.join('\n')\<close>.\<close>

fun split_lines :: "string \<Rightarrow> string \<Rightarrow> string list" where
  "split_lines cur [] = [rev cur]"
| "split_lines cur [c] = (if c = CHR 0x0A then [rev cur, []] else [rev (c # cur)])"
| "split_lines cur (c # d # cs) =
     (if c = CHR 0x0A then rev cur # split_lines [] (d # cs)
      else if c = CHR 0x0D \<and> d = CHR 0x0A then rev cur # split_lines [] cs
      else split_lines (c # cur) (d # cs))"

fun join_lines :: "string list \<Rightarrow> string" where
  "join_lines [] = []"
| "join_lines [l] = l"
| "join_lines (l # ls) = l @ CHR 0x0A # join_lines ls"

definition renderContentToHtml :: "string \<Rightarrow> string" where
  "renderContentToHtml content =
     (if content = [] then [] else join_lines (map render_line (split_lines [] content)))"

section \<open>email.js: sendMail\<close>

text \<open>
  The environment variables that decide control flow; an unset variable is \<open>None\<close>, and
  JavaScript treats the empty string like an unset one. The html and text bodies of a
  message pass unchanged from the caller to the provider call and are left out.
\<close>

record env =
  MAIL_FROM :: "string option"
  SMTP_HOST :: "string option"
  SMTP_USER :: "string option"
  SMTP_PASS :: "string option"
  RESEND_API_KEY :: "string option"

record message =
  msg_to :: string
  msg_subject :: string

datatype js_error = Thrown string | ResendStatus nat string

text \<open>
  What the outside world answers to one send: the result of \<open>await fetch(...)\<close> with the
  results of \<open>await res.text()\<close> and \<open>await res.json()\<close> (the \<open>id\<close> of the parsed data),
  and the result of \<open>await transport.sendMail(...)\<close> (the message id). \<open>Inl\<close> is a
  rejected promise.
\<close>

record http_response =
  res_ok :: bool
  res_status :: nat
  res_text :: "js_error + string"
  res_json :: "js_error + string option"

record network =
  fetch_result :: "js_error + http_response"
  smtp_result :: "js_error + string"

datatype channel = Resend | Smtp

datatype event =
    Warn string
  | Info string
  | Failed string js_error
  | Attempt channel string string string

fun truthy :: "string option \<Rightarrow> bool" where
  "truthy None = False"
| "truthy (Some s) = (s \<noteq> [])"

text \<open>\<open>a || d\<close> for a string or undefined \<open>a\<close> and a string \<open>d\<close>.\<close>

fun or_default :: "string option \<Rightarrow> string \<Rightarrow> string" where
  "or_default None d = d"
| "or_default (Some s) d = (if s = [] then d else s)"

definition sender :: "env \<Rightarrow> string" where
  "sender e = or_default (MAIL_FROM e) (or_default (SMTP_USER e) ''onboarding@resend.dev'')"

definition sender_warning :: event where
  "sender_warning = Warn ''MAIL_FROM not set. Using default sender onboarding@resend.dev''"

text \<open>
  \<open>createTransport\<close> returns null (here \<open>False\<close>) when an SMTP variable is missing;
  otherwise \<open>nodemailer.createTransport\<close> builds the transport object from the options.
  That constructor opens no connection and is taken to return normally; the port,
  TLS and timeout variables only fill in its options.
\<close>

definition createTransport :: "env \<Rightarrow> bool \<times> event list" where
  "createTransport e =
     (if \<not> truthy (SMTP_HOST e) \<or> \<not> truthy (SMTP_USER e) \<or> \<not> truthy (SMTP_PASS e)
      then (False, [Warn ''Email disabled: missing SMTP env (SMTP_HOST, SMTP_USER, SMTP_PASS)''])
      else (True, []))"

text \<open>The body of the first \<open>try\<close> block, up to \<open>return true\<close>.\<close>

definition resend_try :: "network \<Rightarrow> js_error + string option" where
  "resend_try net =
     (case fetch_result net of
        Inl err \<Rightarrow> Inl err
      | Inr res \<Rightarrow>
          if \<not> res_ok res then
            (case res_text res of
               Inl err \<Rightarrow> Inl err
             | Inr errBody \<Rightarrow> Inl (ResendStatus (res_status res) errBody))
          else
            (case res_json res of
               Inl err \<Rightarrow> Inl err
             | Inr data_id \<Rightarrow> Inr data_id))"

text \<open>The statements after the first \<open>try\<close> block.\<close>

definition smtp_part :: "env \<Rightarrow> network \<Rightarrow> string \<Rightarrow> message \<Rightarrow> (js_error + bool) \<times> event list" where
  "smtp_part e net sender_addr msg =
     (case createTransport e of
        (False, warns) \<Rightarrow> (Inr False, warns)
      | (True, warns) \<Rightarrow>
          (case smtp_result net of
             Inr messageId \<Rightarrow>
               (Inr True, warns @ [Attempt Smtp sender_addr (msg_to msg) (msg_subject msg),
                                   Info ''Email sent via SMTP''])
           | Inl err \<Rightarrow>
               (Inr False, warns @ [Attempt Smtp sender_addr (msg_to msg) (msg_subject msg),
                                    Failed ''SMTP send failed'' err])))"

text \<open>
  \<open>sendMail\<close> is an async function: its result is a promise, fulfilled with a boolean
  (\<open>Inr\<close>) or rejected (\<open>Inl\<close>). The second component is what it logged and which
  provider calls it made, in order.
\<close>

definition sendMail :: "env \<Rightarrow> network \<Rightarrow> message \<Rightarrow> (js_error + bool) \<times> event list" where
  "sendMail e net msg =
     (let sender_addr = sender e;
          warned = (if \<not> truthy (MAIL_FROM e) \<and> \<not> truthy (SMTP_USER e)
                    then [sender_warning] else [])
      in if truthy (RESEND_API_KEY e) then
           (case resend_try net of
              Inr data_id \<Rightarrow>
                (Inr True, warned @ [Attempt Resend sender_addr (msg_to msg) (msg_subject msg),
                                     Info ''Email sent via Resend''])
            | Inl err \<Rightarrow>
                (case smtp_part e net sender_addr msg of
                   (r, evs) \<Rightarrow>
                     (r, warned @ [Attempt Resend sender_addr (msg_to msg) (msg_subject msg),
                                   Failed ''Resend send failed'' err] @ evs)))
         else
           (case smtp_part e net sender_addr msg of (r, evs) \<Rightarrow> (r, warned @ evs)))"

fun attempts :: "event list \<Rightarrow> channel list" where
  "attempts [] = []"
| "attempts (Attempt ch f t s # evs) = ch # attempts evs"
| "attempts (_ # evs) = attempts evs"

text \<open>\<open>Promise.allSettled\<close>: one settled result per promise, never rejecting itself.\<close>

datatype 'a settled = Fulfilled 'a | Rejected js_error

fun settle :: "js_error + 'a \<Rightarrow> 'a settled" where
  "settle (Inl err) = Rejected err"
| "settle (Inr v) = Fulfilled v"

definition allSettled :: "(js_error + 'a) list \<Rightarrow> 'a settled list" where
  "allSettled ps = map settle ps"

fun is_fulfilled :: "'a settled \<Rightarrow> bool" where
  "is_fulfilled (Fulfilled v) = True"
| "is_fulfilled (Rejected err) = False"

section \<open>db.js: the SQLite schema\<close>

text \<open>
  The tables of \<open>initDb\<close> with the columns the handlers below write or compare; the
  timestamp columns are left out. \<open>seq_*\<close> is the AUTOINCREMENT counter of a table.
  The only statement failure modelled is a violated UNIQUE constraint.
\<close>

record post =
  post_id :: nat
  post_title :: string
  post_slug :: string
  post_content :: string

record comment =
  comment_id :: nat
  comment_post_id :: nat
  comment_author :: string
  comment_body :: string

record subscriber =
  sub_id :: nat
  sub_email :: string

record db =
  posts :: "post list"
  comments :: "comment list"
  subscribers :: "subscriber list"
  seq_posts :: nat
  seq_subscribers :: nat

datatype sql_error = SQLITE_CONSTRAINT

text \<open>
  \<open>getDb\<close> opens the connection with \<open>new sqlite3.Database(dbPath)\<close> and nothing else.
  SQLite enforces foreign keys, and so runs \<open>ON DELETE CASCADE\<close>, only on a connection
  that executed \<open>PRAGMA foreign_keys = ON\<close>; a new connection has it off, and no
  statement of db.js, app.js or routes.js turns it on.
\<close>

record connection =
  foreign_keys :: bool

definition getDb :: connection where
  "getDb = \<lparr>foreign_keys = False\<rparr>"

text \<open>\<open>INSERT INTO posts (title, slug, content) VALUES (?, ?, ?)\<close>, slug UNIQUE.\<close>

definition insert_post :: "string \<Rightarrow> string \<Rightarrow> string \<Rightarrow> db \<Rightarrow> sql_error + db" where
  "insert_post title slug content d =
     (if list_ex (\<lambda>p. post_slug p = slug) (posts d) then Inl SQLITE_CONSTRAINT
      else Inr (d\<lparr>posts := posts d @
                    [\<lparr>post_id = Suc (seq_posts d), post_title = title, post_slug = slug,
                      post_content = content\<rparr>],
                 seq_posts := Suc (seq_posts d)\<rparr>))"

text \<open>\<open>INSERT INTO subscribers (email) VALUES (?)\<close>, email UNIQUE.\<close>

definition insert_subscriber :: "string \<Rightarrow> db \<Rightarrow> sql_error + db" where
  "insert_subscriber email d =
     (if list_ex (\<lambda>s. sub_email s = email) (subscribers d) then Inl SQLITE_CONSTRAINT
      else Inr (d\<lparr>subscribers := subscribers d @
                    [\<lparr>sub_id = Suc (seq_subscribers d), sub_email = email\<rparr>],
                 seq_subscribers := Suc (seq_subscribers d)\<rparr>))"

text \<open>
  \<open>DELETE FROM posts WHERE id = ?\<close>. The comments of a deleted post go with it
  (\<open>FOREIGN KEY(post_id) REFERENCES posts(id) ON DELETE CASCADE\<close>) when the connection
  enforces foreign keys.
\<close>

definition exec_delete_post :: "connection \<Rightarrow> nat \<Rightarrow> db \<Rightarrow> db" where
  "exec_delete_post conn pid d =
     d\<lparr>posts := filter (\<lambda>p. post_id p \<noteq> pid) (posts d),
       comments :=
         (if foreign_keys conn \<and> list_ex (\<lambda>p. post_id p = pid) (posts d)
          then filter (\<lambda>c. comment_post_id c \<noteq> pid) (comments d)
          else comments d)\<rparr>"

section \<open>routes.js: the handlers\<close>

datatype jsval = JStr string | JBool bool | JNull

datatype response =
    Redirect string
  | Render string "(string \<times> jsval) list"
  | Send nat string
  | Json nat "(string \<times> jsval) list"

text \<open>
  The fan-out of lines 205-211 and 301-304: one \<open>sendMail\<close> per subscriber, joined by
  \<open>Promise.allSettled\<close>, then the counts that are logged. \<open>net\<close> gives the outside
  world's answer for each recipient. The rows of \<open>SELECT email FROM subscribers\<close>
  come in the order the engine chooses (SQLite may read them from the index on email);
  the model takes the order of the list, and only the order of \<open>batch_results\<close>
  depends on it, not the counts.
\<close>

record batch =
  batch_results :: "bool settled list"
  batch_total :: nat
  batch_sent :: nat
  batch_failed :: nat

definition notify_all :: "env \<Rightarrow> (string \<Rightarrow> network) \<Rightarrow> string \<Rightarrow> subscriber list \<Rightarrow> batch" where
  "notify_all e net subject subs =
     (let results = allSettled (map (\<lambda>s. fst (sendMail e (net (sub_email s))
                       \<lparr>msg_to = sub_email s, msg_subject = subject\<rparr>)) subs);
          fulfilled = length (filter is_fulfilled results);
          rejected = length results - fulfilled
      in \<lparr>batch_results = results, batch_total = length results,
          batch_sent = fulfilled, batch_failed = rejected\<rparr>)"

text \<open>\<open>router.post('/subscribe')\<close>. The third component is the welcome mail it started.\<close>

definition subscribe ::
  "env \<Rightarrow> (string \<Rightarrow> network) \<Rightarrow> string option \<Rightarrow> db
     \<Rightarrow> response \<times> db \<times> ((js_error + bool) \<times> event list) option" where
  "subscribe e net email0 d =
     (let email = toLowerCase (trim (or_default email0 [])) in
      if email \<noteq> [] then
        (case insert_subscriber email d of
           Inr d' \<Rightarrow>
             (Redirect ''/?subscribed=1'', d',
              Some (sendMail e (net email)
                      \<lparr>msg_to = email, msg_subject = ''Welcome to abelashine blog''\<rparr>))
         | Inl err \<Rightarrow> (Redirect ''/?subscribed=0'', d, None))
      else (Redirect ''/'', d, None))"

text \<open>\<open>router.post('/admin/posts')\<close> behind \<open>requireAuth\<close>.\<close>

record post_form =
  form_title :: "string option"
  form_content :: "string option"
  form_files :: "string list"
  form_protocol :: string
  form_host :: string

definition new_post_page :: "string \<Rightarrow> string \<Rightarrow> string \<Rightarrow> response" where
  "new_post_page title content err =
     Render ''admin/new''
       [(''post.title'', JStr title), (''post.content'', JStr content), (''error'', JStr err)]"

definition create_post ::
  "env \<Rightarrow> (string \<Rightarrow> network) \<Rightarrow> nat option \<Rightarrow> post_form \<Rightarrow> db
     \<Rightarrow> response \<times> db \<times> batch option" where
  "create_post e net userId form d =
     (case userId of
        None \<Rightarrow> (Redirect ''/login'', d, None)
      | Some uid \<Rightarrow>
          (let title = trim (or_default (form_title form) []);
               content = trim (or_default (form_content form) [])
           in if title = [] \<or> content = []
              then (new_post_page title content ''Title and content required'', d, None)
              else
                (let slug = slugify title;
                     baseUrl = form_protocol form @ ''://'' @ form_host form;
                     urls = map (\<lambda>f. baseUrl @ ''/uploads/'' @ f) (form_files form);
                     finalContent =
                       (if form_files form \<noteq> []
                        then content @ [CHR 0x0A, CHR 0x0A] @ join_lines urls else content)
                 in case insert_post title slug finalContent d of
                      Inr d' \<Rightarrow>
                        (Redirect ''/admin'', d',
                         Some (notify_all e net (''New post: '' @ title) (subscribers d')))
                    | Inl err \<Rightarrow> (new_post_page title content ''Title already used'', d, None))))"

text \<open>\<open>router.delete('/admin/posts/:id')\<close> behind \<open>requireAuth\<close>.\<close>

definition delete_post :: "nat option \<Rightarrow> nat \<Rightarrow> db \<Rightarrow> response \<times> db" where
  "delete_post userId pid d =
     (case userId of
        None \<Rightarrow> (Redirect ''/login'', d)
      | Some uid \<Rightarrow> (Redirect ''/admin'', exec_delete_post getDb pid d))"

text \<open>\<open>router.post('/admin/broadcast')\<close> behind \<open>requireAuth\<close>.\<close>

definition broadcast ::
  "env \<Rightarrow> (string \<Rightarrow> network) \<Rightarrow> nat option \<Rightarrow> string option \<Rightarrow> string option \<Rightarrow> db
     \<Rightarrow> response \<times> batch option" where
  "broadcast e net userId subject0 message0 d =
     (case userId of
        None \<Rightarrow> (Redirect ''/login'', None)
      | Some uid \<Rightarrow>
          (let subject = trim (or_default subject0 []);
               message = trim (or_default message0 [])
           in if subject = [] \<or> message = []
              then (Render ''admin/broadcast''
                      [(''error'', JStr ''Subject and message required''), (''sent'', JBool False),
                       (''subject'', JStr subject), (''message'', JStr message)], None)
              else
                (let report = notify_all e net subject (subscribers d)
                 in (Render ''admin/broadcast''
                       [(''error'', JNull), (''sent'', JBool True),
                        (''subject'', JStr []), (''message'', JStr [])], Some report))))"

section \<open>server.js: the file-backed handlers\<close>

text \<open>
  The posts directory maps a file name to the title, date and body that were handed to
  \<open>matter.stringify\<close> for it (the text written is their serialization, the body with a
  final newline); the two collections are undefined (\<open>None\<close>) until the document
  store has loaded. File-system failures are not modelled.
\<close>

record post_file =
  file_title :: string
  file_createdAt :: string
  file_body :: string

record post_row =
  row_slug :: string
  row_title :: string
  row_createdAt :: string

record comment_row =
  crow_slug :: string
  crow_name :: string
  crow_text :: string

record store =
  post_files :: "string \<rightharpoonup> post_file"
  postsCollection :: "post_row list option"
  commentsCollection :: "comment_row list option"

definition requireAdmin :: "bool \<Rightarrow> bool \<Rightarrow> response option" where
  "requireAdmin admin_cookie wantsJson =
     (if admin_cookie then None
      else if wantsJson then Some (Json 401 [(''error'', JStr ''Unauthorized'')])
      else Some (Redirect ''/login''))"

text \<open>
  \<open>app.post('/publish')\<close>. \<open>lib_slug\<close> is what the slugify package returns for the
  title, \<open>date_now\<close> the digits of \<open>Date.now()\<close>, \<open>iso1\<close> and \<open>iso2\<close> the two
  \<open>new Date().toISOString()\<close>.
\<close>

definition publish ::
  "string \<Rightarrow> string \<Rightarrow> string \<Rightarrow> string \<Rightarrow> bool \<Rightarrow> bool \<Rightarrow> string option \<Rightarrow> string option
     \<Rightarrow> store \<Rightarrow> response \<times> store" where
  "publish lib_slug date_now iso1 iso2 admin_cookie wantsJson title0 body0 st =
     (case requireAdmin admin_cookie wantsJson of
        Some refusal \<Rightarrow> (refusal, st)
      | None \<Rightarrow>
          if \<not> truthy title0 \<or> \<not> truthy body0
          then (Send 400 ''Title and body are required'', st)
          else
            (let title = or_default title0 []; body = or_default body0 [];
                 slug = (if lib_slug = [] then ''post-'' @ date_now else lib_slug);
                 filePath = slug @ ''.md'';
                 st1 = st\<lparr>post_files := (post_files st)(filePath \<mapsto>
                          \<lparr>file_title = title, file_createdAt = iso1, file_body = body\<rparr>)\<rparr>;
                 st2 = (case postsCollection st1 of
                          None \<Rightarrow> st1
                        | Some rows \<Rightarrow>
                            st1\<lparr>postsCollection := Some (rows @
                              [\<lparr>row_slug = slug, row_title = title, row_createdAt = iso2\<rparr>])\<rparr>)
             in (Redirect (''/p/'' @ slug), st2)))"

text \<open>
  \<open>app.post('/admin/posts/:slug/delete')\<close>. When several rows share the slug,
  \<open>findOne\<close> picks one of them through the index on slug, not necessarily the oldest;
  the model removes the first of the list. All comments of the slug are removed.
\<close>

fun remove_first :: "('a \<Rightarrow> bool) \<Rightarrow> 'a list \<Rightarrow> 'a list" where
  "remove_first P [] = []"
| "remove_first P (x # xs) = (if P x then xs else x # remove_first P xs)"

definition delete_post_file :: "bool \<Rightarrow> bool \<Rightarrow> string \<Rightarrow> store \<Rightarrow> response \<times> store" where
  "delete_post_file admin_cookie wantsJson slug st =
     (case requireAdmin admin_cookie wantsJson of
        Some refusal \<Rightarrow> (refusal, st)
      | None \<Rightarrow>
          (let filePath = slug @ ''.md'';
               st1 = st\<lparr>post_files := (post_files st)(filePath := None)\<rparr>;
               st2 = (case postsCollection st1 of
                        None \<Rightarrow> st1
                      | Some rows \<Rightarrow>
                          st1\<lparr>postsCollection :=
                                Some (remove_first (\<lambda>r. row_slug r = slug) rows)\<rparr>);
               st3 = (case commentsCollection st2 of
                        None \<Rightarrow> st2
                      | Some cs \<Rightarrow>
                          st2\<lparr>commentsCollection :=
                                Some (filter (\<lambda>c. crow_slug c \<noteq> slug) cs)\<rparr>)
           in (Redirect ''/admin/posts'', st3)))"

section \<open>Auxiliary definitions for the statements\<close>

definition esc_char :: "char \<Rightarrow> string" where
  "esc_char c = (if c = CHR ''&'' then ''&amp;'' else if c = CHR ''<'' then ''&lt;''
                 else if c = CHR ''>'' then ''&gt;'' else [c])"

fun esc_piece :: "piece \<Rightarrow> piece list" where
  "esc_piece (Lit c) = map Lit (esc_char c)"
| "esc_piece (Url m) = [Url (escapeHtml m)]"

fun succeeded :: "js_error + 'a \<Rightarrow> bool" where
  "succeeded (Inl err) = False"
| "succeeded (Inr v) = True"

definition no_mail_env :: env where
  "no_mail_env = \<lparr>MAIL_FROM = None, SMTP_HOST = None, SMTP_USER = None, SMTP_PASS = None,
                   RESEND_API_KEY = None\<rparr>"

definition unreachable :: network where
  "unreachable = \<lparr>fetch_result = Inl (Thrown ''fetch failed''),
                   smtp_result = Inl (Thrown ''connect ETIMEDOUT'')\<rparr>"

definition one_subscriber :: db where
  "one_subscriber = \<lparr>posts = [], comments = [],
                      subscribers = [\<lparr>sub_id = 1, sub_email = ''a@b.c''\<rparr>],
                      seq_posts = 0, seq_subscribers = 1\<rparr>"

definition post_with_comment :: db where
  "post_with_comment =
     \<lparr>posts = [\<lparr>post_id = 1, post_title = ''Hello'', post_slug = ''hello'', post_content = ''text''\<rparr>],
      comments = [\<lparr>comment_id = 1, comment_post_id = 1, comment_author = ''Anonymous'',
                   comment_body = ''first''\<rparr>],
      subscribers = [], seq_posts = 1, seq_subscribers = 0\<rparr>"

definition empty_db :: db where
  "empty_db = \<lparr>posts = [], comments = [], subscribers = [], seq_posts = 0, seq_subscribers = 0\<rparr>"

definition empty_store :: store where
  "empty_store = \<lparr>post_files = Map.empty, postsCollection = Some [], commentsCollection = Some []\<rparr>"

definition fallback_env :: env where
  "fallback_env = \<lparr>MAIL_FROM = None, SMTP_HOST = Some ''smtp.example.org'',
                    SMTP_USER = Some ''blog@example.org'', SMTP_PASS = Some ''secret'',
                    RESEND_API_KEY = Some ''re_key''\<rparr>"

definition smtp_only_up :: network where
  "smtp_only_up = \<lparr>fetch_result = Inl (Thrown ''fetch failed''), smtp_result = Inr ''<id@example.org>''\<rparr>"

text \<open>
  Shorthand for the statements about \<open>sendMail\<close>: the three SMTP variables are set, and
  the HTTPS provider answered with a success response whose JSON body could be read.
\<close>

abbreviation smtp_configured :: "env \<Rightarrow> bool" where
  "smtp_configured e \<equiv> truthy (SMTP_HOST e) \<and> truthy (SMTP_USER e) \<and> truthy (SMTP_PASS e)"

abbreviation resend_accepted :: "network \<Rightarrow> bool" where
  "resend_accepted net \<equiv>
     \<exists>res data_id. fetch_result net = Inr res \<and> res_ok res \<and> res_json res = Inr data_id"

definition disabled_warning :: event where
  "disabled_warning = Warn ''Email disabled: missing SMTP env (SMTP_HOST, SMTP_USER, SMTP_PASS)''"

definition key_only_env :: env where
  "key_only_env = \<lparr>MAIL_FROM = Some ''blog@example.org'', SMTP_HOST = None, SMTP_USER = None,
                    SMTP_PASS = None, RESEND_API_KEY = Some ''re_key''\<rparr>"

definition accepted_response :: http_response where
  "accepted_response = \<lparr>res_ok = True, res_status = 200, res_text = Inr ''{}'',
                         res_json = Inr (Some ''49a3999c'')\<rparr>"

definition resend_up :: network where
  "resend_up = \<lparr>fetch_result = Inr accepted_response,
                 smtp_result = Inl (Thrown ''connect ETIMEDOUT'')\<rparr>"

definition resend_refuses :: network where
  "resend_refuses = \<lparr>fetch_result = Inr \<lparr>res_ok = False, res_status = 403,
                                            res_text = Inr ''forbidden'',
                                            res_json = Inl (Thrown ''body used'')\<rparr>,
                      smtp_result = Inr ''<id@example.org>''\<rparr>"

definition resend_unreadable :: network where
  "resend_unreadable = \<lparr>fetch_result = Inr \<lparr>res_ok = True, res_status = 200, res_text = Inr ''ok'',
                                               res_json = Inl (Thrown ''Unexpected token'')\<rparr>,
                         smtp_result = Inr ''<id@example.org>''\<rparr>"

section \<open>Properties of the renderer\<close>

lemma urlRegex_at_length:
  "urlRegex_at s = Some m \<Longrightarrow> 0 < length m \<and> length m \<le> length s"
  by (auto simp: urlRegex_at_def Let_def prefix_def split: if_splits)
     (metis add_le_mono1 le_add2 length_takeWhile_le add.commute)+

lemma replace_char_append:
  "replace_char c r (a @ b) = replace_char c r a @ replace_char c r b"
  by (simp add: replace_char_def)

lemma replace_char_Cons:
  "replace_char c r (d # s) = (if d = c then r else [d]) @ replace_char c r s"
  by (simp add: replace_char_def)

lemma replace_char_Nil: "replace_char c r [] = []"
  by (simp add: replace_char_def)

lemma escapeHtml_Nil: "escapeHtml [] = []"
  by (simp add: escapeHtml_def replace_char_Nil)

lemma escapeHtml_Cons: "escapeHtml (c # s) = esc_char c @ escapeHtml s"
  by (simp add: escapeHtml_def esc_char_def replace_char_Cons replace_char_append replace_char_Nil)

lemma escapeHtml_append: "escapeHtml (a @ b) = escapeHtml a @ escapeHtml b"
  by (simp add: escapeHtml_def replace_char_append)

lemma escapeHtml_concat: "escapeHtml s = concat (map esc_char s)"
  by (induction s) (simp_all add: escapeHtml_Nil escapeHtml_Cons)

lemma escapeHtml_no_markup:
  "CHR ''<'' \<notin> set (escapeHtml s) \<and> CHR ''>'' \<notin> set (escapeHtml s)"
  by (induction s) (auto simp: escapeHtml_Nil escapeHtml_Cons esc_char_def)

lemma regex_test_here: "at s \<Longrightarrow> regex_test at s"
  by (cases s) simp_all

lemma is_space_canon: "is_space c \<Longrightarrow> canonicalize c = c"
  by (auto simp: is_space_def canonicalize_def)

lemma canon_exts:
  "map (map canonicalize) image_exts = [''PNG'', ''JPG'', ''JPEG'', ''GIF'', ''WEBP'']"
  by code_simp

lemma ext_no_space:
  assumes "e \<in> set image_exts" and "map canonicalize ext = map canonicalize e"
  shows "\<forall>c \<in> set ext. \<not> is_space c"
proof
  fix c assume c: "c \<in> set ext"
  have "map canonicalize e \<in> set (map (map canonicalize) image_exts)"
    using assms(1) by simp
  then have e: "map canonicalize e \<in> set [''PNG'', ''JPG'', ''JPEG'', ''GIF'', ''WEBP'']"
    by (simp only: canon_exts)
  from c have "canonicalize c \<in> set (map canonicalize ext)" by simp
  then have m: "canonicalize c \<in> set (map canonicalize e)" using assms(2) by simp
  show "\<not> is_space c"
  proof
    assume sp: "is_space c"
    then have "c \<in> set (map canonicalize e)" using m is_space_canon by simp
    then show False using sp e by (auto simp: is_space_def)
  qed
qed

lemma url_pieces_whole:
  assumes "urlRegex_at s = Some s"
  shows "url_pieces s = [Url s]"
proof (cases s)
  case Nil
  then show ?thesis using assms by (simp add: urlRegex_at_def)
next
  case (Cons c cs)
  then show ?thesis using assms by simp
qed

lemma urlRegex_at_whole:
  assumes "p = ''http://'' \<or> p = ''https://''" and "r \<noteq> []" and "\<forall>c \<in> set r. \<not> is_space c"
  shows "urlRegex_at (p @ r) = Some (p @ r)"
proof -
  have t: "takeWhile (\<lambda>c. \<not> is_space c) r = r" using assms(3) by simp
  show ?thesis using assms(1,2) by (auto simp: urlRegex_at_def Let_def t)
qed

lemma image_tail_whole:
  assumes "body \<noteq> []" and "\<forall>c \<in> set body. \<not> is_space c"
    and "e \<in> set image_exts" and "map canonicalize ext = map canonicalize e"
  shows "image_tail (body @ CHR ''.'' # ext)"
proof -
  let ?r = "body @ CHR ''.'' # ext"
  have k: "length body \<in> set [1..<Suc (length ?r)]" using assms(1) by (simp add: Suc_le_eq)
  have a: "list_all (\<lambda>c. \<not> is_space c) (take (length body) ?r)"
    using assms(2) by (simp add: list_all_iff)
  have "ci_prefix (CHR ''.'' # e) (CHR ''.'' # ext)"
    using assms(4) by (simp add: ci_prefix_def)
  then have b: "list_ex (\<lambda>e. ci_prefix (CHR ''.'' # e) (drop (length body) ?r)) image_exts"
    unfolding list_ex_iff using assms(3) by (intro bexI[of _ e]) simp_all
  show ?thesis
    unfolding image_tail_def list_ex_iff[of _ "[1..<Suc (length ?r)]"] using k a b by blast
qed

lemma imageRegex_at_whole:
  assumes "p = ''http://'' \<or> p = ''https://''" and "image_tail r"
  shows "imageRegex_at (p @ r)"
proof -
  have "ci_prefix p (p @ r) \<and> image_tail (drop (length p) (p @ r))"
    using assms(2) by (simp add: ci_prefix_def)
  moreover have "p \<in> set [''http://'', ''https://'']" using assms(1) by auto
  ultimately show ?thesis unfolding imageRegex_at_def list_ex_iff by blast
qed

text \<open>
  Claim C3, as amended. A line whose trimmed content is \<open>http://\<close> or \<open>https://\<close>, then at
  least one character, then a dot and an allow-listed extension in any letter case, with
  no white space inside, is rendered as exactly one image element (with the lazy-loading
  hint) around the escaped URL, and no paragraph element surrounds it.
\<close>

theorem standalone_image:
  assumes "trim line = p @ body @ CHR ''.'' # ext"
    and "p = ''http://'' \<or> p = ''https://''"
    and "body \<noteq> []" and "\<forall>c \<in> set body. \<not> is_space c"
    and "e \<in> set image_exts" and "map canonicalize ext = map canonicalize e"
  shows "render_line line = image_div (escapeHtml (trim line))"
proof -
  have ns: "\<forall>c \<in> set (body @ CHR ''.'' # ext). \<not> is_space c"
    using assms(4) ext_no_space[OF assms(5,6)] by (auto simp: is_space_def)
  have u: "urlRegex_at (trim line) = Some (trim line)"
    unfolding assms(1) by (rule urlRegex_at_whole[OF assms(2) _ ns]) simp
  have m: "match_urlRegex (trim line) = [trim line]"
    by (simp add: match_urlRegex_def url_pieces_whole[OF u])
  have i: "regex_test imageRegex_at (trim line)"
    unfolding assms(1) by (rule regex_test_here, rule imageRegex_at_whole[OF assms(2) image_tail_whole[OF assms(3-6)]])
  have ne: "trim line \<noteq> []" using assms(1,2) by auto
  show ?thesis by (simp add: render_line_def Let_def m i ne)
qed

lemma urlRegex_at_not_h: "c \<noteq> CHR ''h'' \<Longrightarrow> urlRegex_at (c # cs) = None"
  by (simp add: urlRegex_at_def)

lemma esc_char_not_h: "c \<noteq> CHR ''h'' \<Longrightarrow> hd (esc_char c) \<noteq> CHR ''h''"
  by (simp add: esc_char_def)

lemma esc_char_plain:
  "c \<noteq> CHR ''&'' \<Longrightarrow> c \<noteq> CHR ''<'' \<Longrightarrow> c \<noteq> CHR ''>'' \<Longrightarrow> esc_char c = [c]"
  by (simp add: esc_char_def)

lemma escapeHtml_plain:
  "CHR ''&'' \<notin> set p \<Longrightarrow> CHR ''<'' \<notin> set p \<Longrightarrow> CHR ''>'' \<notin> set p \<Longrightarrow> escapeHtml p = p"
  by (induction p) (auto simp: escapeHtml_Nil escapeHtml_Cons esc_char_def)

lemma prefix_escapeHtml:
  assumes "CHR ''&'' \<notin> set p" "CHR ''<'' \<notin> set p" "CHR ''>'' \<notin> set p"
  shows "prefix p (escapeHtml s) = prefix p s"
  using assms
proof (induction p arbitrary: s)
  case Nil
  then show ?case by simp
next
  case (Cons a p)
  show ?case
  proof (cases s)
    case Nil
    then show ?thesis by (simp add: escapeHtml_Nil)
  next
    case (Cons c cs)
    show ?thesis
    proof (cases "c = CHR ''&'' \<or> c = CHR ''<'' \<or> c = CHR ''>''")
      case True
      then show ?thesis using Cons Cons.prems
        by (auto simp: escapeHtml_Cons esc_char_def)
    next
      case False
      then have "escapeHtml s = c # escapeHtml cs"
        using Cons by (simp add: escapeHtml_Cons esc_char_def)
      then show ?thesis using Cons Cons.IH[of cs] Cons.prems by simp
    qed
  qed
qed

lemma esc_char_spaces:
  "is_space c \<Longrightarrow> esc_char c = [c]"
  "\<not> is_space c \<Longrightarrow> \<forall>d \<in> set (esc_char c). \<not> is_space d"
  by (auto simp: esc_char_def is_space_def)

lemma takeWhile_escapeHtml:
  "takeWhile (\<lambda>c. \<not> is_space c) (escapeHtml r) = escapeHtml (takeWhile (\<lambda>c. \<not> is_space c) r)"
proof (induction r)
  case Nil
  then show ?case by (simp add: escapeHtml_Nil)
next
  case (Cons c r)
  show ?case
  proof (cases "is_space c")
    case True
    then show ?thesis by (simp add: escapeHtml_Cons esc_char_spaces(1) escapeHtml_Nil)
  next
    case False
    then show ?thesis using Cons esc_char_spaces(2)[OF False]
      by (simp add: escapeHtml_Cons takeWhile_append2)
  qed
qed

lemma escapeHtml_eq_Nil: "escapeHtml s = [] \<longleftrightarrow> s = []"
  by (cases s) (auto simp: escapeHtml_Nil escapeHtml_Cons esc_char_def)

lemma urlRegex_at_scheme:
  "urlRegex_at (''http://'' @ r) =
     (let run = takeWhile (\<lambda>c. \<not> is_space c) r in if run = [] then None else Some (''http://'' @ run))"
  "urlRegex_at (''https://'' @ r) =
     (let run = takeWhile (\<lambda>c. \<not> is_space c) r in if run = [] then None else Some (''https://'' @ run))"
  by (simp_all add: urlRegex_at_def)

lemma urlRegex_at_cases:
  obtains r where "s = ''http://'' @ r" | r where "s = ''https://'' @ r"
  | "\<not> prefix ''http://'' s" "\<not> prefix ''https://'' s"
  unfolding prefix_def by blast

lemma escapeHtml_scheme:
  "escapeHtml (''http://'' @ r) = ''http://'' @ escapeHtml r"
  "escapeHtml (''https://'' @ r) = ''https://'' @ escapeHtml r"
  by (simp_all add: escapeHtml_Cons esc_char_def)

lemma urlRegex_at_escapeHtml:
  "urlRegex_at (escapeHtml s) = map_option escapeHtml (urlRegex_at s)"
proof (cases s rule: urlRegex_at_cases)
  case (1 r)
  show ?thesis unfolding 1 escapeHtml_scheme urlRegex_at_scheme takeWhile_escapeHtml Let_def
    by (simp add: escapeHtml_eq_Nil escapeHtml_scheme[symmetric] del: append.simps)
next
  case (2 r)
  show ?thesis unfolding 2 escapeHtml_scheme urlRegex_at_scheme takeWhile_escapeHtml Let_def
    by (simp add: escapeHtml_eq_Nil escapeHtml_scheme[symmetric] del: append.simps)
next
  case 3
  then have "\<not> prefix ''http://'' (escapeHtml s)" "\<not> prefix ''https://'' (escapeHtml s)"
    by (simp_all add: prefix_escapeHtml)
  then show ?thesis using 3 by (simp add: urlRegex_at_def)
qed


lemma takeWhile_drop_id: "takeWhile P xs @ drop (length (takeWhile P xs)) xs = xs"
  by (metis append_take_drop_id takeWhile_eq_take)

lemma urlRegex_at_prefix:
  assumes "urlRegex_at s = Some m"
  shows "s = m @ drop (length m) s"
proof (cases s rule: urlRegex_at_cases)
  case (1 r)
  then have "m = ''http://'' @ takeWhile (\<lambda>c. \<not> is_space c) r"
    using assms unfolding 1 urlRegex_at_scheme by (simp add: Let_def split: if_splits)
  then show ?thesis unfolding 1 by (simp add: takeWhile_drop_id)
next
  case (2 r)
  then have "m = ''https://'' @ takeWhile (\<lambda>c. \<not> is_space c) r"
    using assms unfolding 2 urlRegex_at_scheme by (simp add: Let_def split: if_splits)
  then show ?thesis unfolding 2 by (simp add: takeWhile_drop_id)
next
  case 3
  then show ?thesis using assms by (simp add: urlRegex_at_def)
qed

lemma url_pieces_Lit:
  "urlRegex_at (c # t) = None \<Longrightarrow> url_pieces (c # t) = Lit c # url_pieces t"
  by simp

lemma url_pieces_entity:
  assumes "c = CHR ''&'' \<or> c = CHR ''<'' \<or> c = CHR ''>''"
  shows "url_pieces (esc_char c @ t) = map Lit (esc_char c) @ url_pieces t"
  using assms by (auto simp: esc_char_def urlRegex_at_not_h)

lemma url_pieces_escapeHtml:
  "url_pieces (escapeHtml s) = concat (map esc_piece (url_pieces s))"
proof (induction s rule: url_pieces.induct)
  case 1
  then show ?case by (simp add: escapeHtml_Nil)
next
  case (2 c cs)
  show ?case
  proof (cases "urlRegex_at (c # cs)")
    case None
    have step: "url_pieces (esc_char c @ escapeHtml cs) = map Lit (esc_char c) @ url_pieces (escapeHtml cs)"
    proof (cases "c = CHR ''&'' \<or> c = CHR ''<'' \<or> c = CHR ''>''")
      case True
      then show ?thesis by (rule url_pieces_entity)
    next
      case False
      then have e: "esc_char c = [c]" by (simp add: esc_char_def)
      have "urlRegex_at (c # escapeHtml cs) = None"
        using urlRegex_at_escapeHtml[of "c # cs"] None by (simp add: escapeHtml_Cons e)
      then show ?thesis by (simp add: e)
    qed
    show ?thesis using None "2.IH"(1)[OF None] by (simp add: escapeHtml_Cons step)
  next
    case (Some m)
    have ch: "c = CHR ''h''" using Some urlRegex_at_not_h[of c cs] by auto
    then have e: "escapeHtml (c # cs) = c # escapeHtml cs"
      by (simp add: escapeHtml_Cons esc_char_def)
    have u: "urlRegex_at (c # escapeHtml cs) = Some (escapeHtml m)"
      using urlRegex_at_escapeHtml[of "c # cs"] Some by (simp add: e)
    have "c # cs = m @ drop (length m) (c # cs)" by (rule urlRegex_at_prefix[OF Some])
    then have "escapeHtml (c # cs) = escapeHtml m @ escapeHtml (drop (length m) (c # cs))"
      by (metis escapeHtml_append)
    then have d: "drop (length (escapeHtml m)) (c # escapeHtml cs) = escapeHtml (drop (length m) (c # cs))"
      unfolding e by (metis append_eq_conv_conj)
    have "url_pieces (c # escapeHtml cs) = Url (escapeHtml m) # url_pieces (escapeHtml (drop (length m) (c # cs)))"
      using u d by simp
    then show ?thesis using Some "2.IH"(2)[OF Some] by (simp add: e)
  qed
qed

lemma replace_urlRegex_escapeHtml:
  "replace_urlRegex f (escapeHtml s) =
     concat (map (\<lambda>p. case p of Lit c \<Rightarrow> esc_char c | Url m \<Rightarrow> f (escapeHtml m)) (url_pieces s))"
proof -
  have "concat (map (\<lambda>p. case p of Lit c \<Rightarrow> [c] | Url m \<Rightarrow> f m) (concat (map esc_piece ps))) =
        concat (map (\<lambda>p. case p of Lit c \<Rightarrow> esc_char c | Url m \<Rightarrow> f (escapeHtml m)) ps)" for ps
  proof (induction ps)
    case Nil
    then show ?case by simp
  next
    case (Cons p ps)
    then show ?case by (cases p) (simp_all add: comp_def)
  qed
  then show ?thesis by (simp add: replace_urlRegex_def url_pieces_escapeHtml)
qed

lemma space_not_h: "is_space c \<Longrightarrow> c \<noteq> CHR ''h''"
  by (auto simp: is_space_def)

lemma url_pieces_spaces:
  "\<forall>c \<in> set w. is_space c \<Longrightarrow> url_pieces (w @ t) = map Lit w @ url_pieces t"
  by (induction w) (simp_all add: urlRegex_at_not_h space_not_h)

lemma trim_decompose:
  obtains w1 w2 where "line = w1 @ trim line @ w2"
    and "\<forall>c \<in> set w1. is_space c" and "\<forall>c \<in> set w2. is_space c"
proof -
  let ?d = "dropWhile is_space line"
  let ?w1 = "takeWhile is_space line"
  let ?w2 = "rev (takeWhile is_space (rev ?d))"
  have "?d = rev (rev ?d)" by simp
  also have "\<dots> = rev (takeWhile is_space (rev ?d) @ dropWhile is_space (rev ?d))"
    by (simp only: takeWhile_dropWhile_id)
  also have "\<dots> = trim line @ ?w2" by (simp only: rev_append trim_def)
  finally have "?d = trim line @ ?w2" .
  then have "line = ?w1 @ trim line @ ?w2" by (metis takeWhile_dropWhile_id)
  moreover have "\<forall>c \<in> set ?w1. is_space c" by (auto dest: set_takeWhileD)
  moreover have "\<forall>c \<in> set ?w2. is_space c" by (auto dest: set_takeWhileD)
  ultimately show thesis by (rule that)
qed

lemma match_urlRegex_length:
  "m \<in> set (match_urlRegex s) \<Longrightarrow> length m \<le> length s"
proof (induction s rule: url_pieces.induct)
  case 1
  then show ?case by (simp add: match_urlRegex_def)
next
  case (2 c cs)
  show ?case
  proof (cases "urlRegex_at (c # cs)")
    case None
    then have "match_urlRegex (c # cs) = match_urlRegex cs" by (simp add: match_urlRegex_def)
    then show ?thesis using "2.IH"(1)[OF None] "2.prems" by auto
  next
    case (Some m')
    then have "match_urlRegex (c # cs) = m' # match_urlRegex (drop (length m') (c # cs))"
      by (simp add: match_urlRegex_def)
    then show ?thesis using "2.IH"(2)[OF Some] "2.prems" urlRegex_at_length[OF Some] by auto
  qed
qed

lemma first_match_whole:
  assumes "match_urlRegex s = s # ms"
  shows "urlRegex_at s = Some s"
proof (cases s)
  case Nil
  then show ?thesis using assms by (simp add: match_urlRegex_def)
next
  case (Cons c cs)
  show ?thesis
  proof (cases "urlRegex_at (c # cs)")
    case None
    then have "match_urlRegex s = match_urlRegex cs" using Cons by (simp add: match_urlRegex_def)
    then have "s \<in> set (match_urlRegex cs)" using assms by (metis list.set_intros(1))
    then have "length s \<le> length cs" by (rule match_urlRegex_length)
    then show ?thesis using Cons by simp
  next
    case (Some m')
    then have "match_urlRegex s = m' # match_urlRegex (drop (length m') (c # cs))"
      using Cons by (simp add: match_urlRegex_def)
    then show ?thesis using assms Some Cons by simp
  qed
qed

lemma urlRegex_at_no_space:
  assumes "urlRegex_at s = Some m"
  shows "\<forall>c \<in> set m. \<not> is_space c"
proof (cases s rule: urlRegex_at_cases)
  case (1 r)
  then have "m = ''http://'' @ takeWhile (\<lambda>c. \<not> is_space c) r"
    using assms unfolding 1 urlRegex_at_scheme by (simp add: Let_def split: if_splits)
  then show ?thesis by (auto simp: is_space_def dest: set_takeWhileD)
next
  case (2 r)
  then have "m = ''https://'' @ takeWhile (\<lambda>c. \<not> is_space c) r"
    using assms unfolding 2 urlRegex_at_scheme by (simp add: Let_def split: if_splits)
  then show ?thesis by (auto simp: is_space_def dest: set_takeWhileD)
next
  case 3
  then show ?thesis using assms by (simp add: urlRegex_at_def)
qed

lemma urlRegex_at_extend:
  assumes "urlRegex_at t = Some t" and "\<forall>c \<in> set w. is_space c"
  shows "urlRegex_at (t @ w) = Some t"
proof -
  have ns: "\<forall>c \<in> set t. \<not> is_space c" by (rule urlRegex_at_no_space[OF assms(1)])
  have tw: "takeWhile (\<lambda>c. \<not> is_space c) (r @ w) = r" if "\<forall>c \<in> set r. \<not> is_space c" for r
    using that assms(2) by (cases w) (simp_all add: takeWhile_append2)
  show ?thesis
  proof (cases t rule: urlRegex_at_cases)
    case (1 r)
    then have r: "\<forall>c \<in> set r. \<not> is_space c" using ns by simp
    have "r \<noteq> []" using assms(1) unfolding 1 urlRegex_at_scheme
      by (auto simp: Let_def split: if_splits)
    then show ?thesis using urlRegex_at_scheme(1)[of "r @ w"] tw[OF r] unfolding 1
      by (simp add: Let_def)
  next
    case (2 r)
    then have r: "\<forall>c \<in> set r. \<not> is_space c" using ns by simp
    have "r \<noteq> []" using assms(1) unfolding 2 urlRegex_at_scheme
      by (auto simp: Let_def split: if_splits)
    then show ?thesis using urlRegex_at_scheme(2)[of "r @ w"] tw[OF r] unfolding 2
      by (simp add: Let_def)
  next
    case 3
    then show ?thesis using assms(1) by (simp add: urlRegex_at_def)
  qed
qed

lemma whole_url_pieces:
  assumes "trim line = [] \<or> urlRegex_at (trim line) = Some (trim line)"
    and "Lit c \<in> set (url_pieces line)"
  shows "is_space c"
proof -
  obtain w1 w2 where d: "line = w1 @ trim line @ w2"
    and w1: "\<forall>c \<in> set w1. is_space c" and w2: "\<forall>c \<in> set w2. is_space c"
    by (rule trim_decompose)
  have w2p: "url_pieces w2 = map Lit w2" using url_pieces_spaces[OF w2, of "[]"] by simp
  have "url_pieces (trim line @ w2) = map Lit w2 \<or> url_pieces (trim line @ w2) = Url (trim line) # map Lit w2"
  proof (cases "trim line = []")
    case True
    then show ?thesis using w2p by simp
  next
    case False
    then have u: "urlRegex_at (trim line) = Some (trim line)" using assms(1) by simp
    obtain a t where t: "trim line = a # t" using False by (cases "trim line") auto
    have "urlRegex_at (a # t @ w2) = Some (a # t)"
      using urlRegex_at_extend[OF u w2] t by simp
    then have "url_pieces (a # t @ w2) = Url (a # t) # url_pieces w2" by simp
    then show ?thesis using t w2p by simp
  qed
  moreover have "url_pieces line = map Lit w1 @ url_pieces (trim line @ w2)"
    using url_pieces_spaces[OF w1, of "trim line @ w2"] d by simp
  ultimately have "Lit c \<in> set (map Lit w1) \<or> Lit c \<in> set (map Lit w2)"
    using assms(2) by auto
  then show ?thesis using w1 w2 by auto
qed

lemma paragraph_branch:
  assumes "Lit c \<in> set (url_pieces line)" and "\<not> is_space c"
  shows "render_line line = ''<p>'' @ replace_urlRegex linkify (escapeHtml line) @ ''</p>''"
proof -
  have n: "\<not> (trim line = [] \<or> urlRegex_at (trim line) = Some (trim line))"
    using whole_url_pieces[OF _ assms(1)] assms(2) by blast
  then have "\<not> (case match_urlRegex (trim line) of [] \<Rightarrow> False | m # _ \<Rightarrow> m = trim line)"
    using first_match_whole[of "trim line"] by (auto split: list.splits)
  then show ?thesis using n by (simp add: render_line_def Let_def)
qed

text \<open>
  Claim C5. When a line has one of \<open>&\<close>, \<open><\<close>, \<open>>\<close> outside its URLs, the output is the
  paragraph built from the pieces of the line: every character outside a URL stands as
  its escaped form (\<open>&amp;\<close>, \<open>&lt;\<close>, \<open>&gt;\<close>, any other character itself), and
  no escaped character contains a raw \<open><\<close> or \<open>>\<close>. The markup of the output comes only
  from the links that replace the URLs, which are built after the text was escaped.
\<close>

theorem user_markup_escaped:
  assumes "Lit c \<in> set (url_pieces line)"
    and "c = CHR ''&'' \<or> c = CHR ''<'' \<or> c = CHR ''>''"
  shows "render_line line =
           ''<p>'' @ concat (map (\<lambda>p. case p of Lit d \<Rightarrow> escapeHtml [d]
                                         | Url m \<Rightarrow> linkify (escapeHtml m)) (url_pieces line)) @ ''</p>''
         \<and> escapeHtml ''&'' = ''&amp;'' \<and> escapeHtml ''<'' = ''&lt;'' \<and> escapeHtml ''>'' = ''&gt;''
         \<and> (\<forall>d. CHR ''<'' \<notin> set (escapeHtml [d]) \<and> CHR ''>'' \<notin> set (escapeHtml [d]))"
proof -
  have "\<not> is_space c" using assms(2) by (auto simp: is_space_def)
  then have "render_line line = ''<p>'' @ replace_urlRegex linkify (escapeHtml line) @ ''</p>''"
    by (rule paragraph_branch[OF assms(1)])
  moreover have "esc_char = (\<lambda>d. escapeHtml [d])"
    by (simp add: escapeHtml_Cons escapeHtml_Nil)
  ultimately show ?thesis
    by (simp add: replace_urlRegex_escapeHtml escapeHtml_no_markup escapeHtml_Cons escapeHtml_Nil esc_char_def)
qed

section \<open>Properties of sendMail\<close>

lemma smtp_part_result:
  "fst (smtp_part e net a msg) = Inr (fst (createTransport e) \<and> succeeded (smtp_result net))"
  by (cases "smtp_result net") (auto simp: smtp_part_def createTransport_def)

lemma smtp_part_attempts:
  "attempts (snd (smtp_part e net a msg)) = (if fst (createTransport e) then [Smtp] else [])"
  by (cases "smtp_result net") (auto simp: smtp_part_def createTransport_def)

lemma attempts_append: "attempts (xs @ ys) = attempts xs @ attempts ys"
  by (induction xs rule: attempts.induct) simp_all

lemma sendMail_result:
  "fst (sendMail e net msg) =
     Inr ((truthy (RESEND_API_KEY e) \<and> succeeded (resend_try net)) \<or>
          (fst (createTransport e) \<and> succeeded (smtp_result net)))"
proof (cases "truthy (RESEND_API_KEY e)")
  case True
  then show ?thesis
    using smtp_part_result[of e net "sender e" msg]
    by (cases "resend_try net") (auto simp: sendMail_def Let_def split: prod.splits)
next
  case False
  then show ?thesis
    using smtp_part_result[of e net "sender e" msg]
    by (auto simp: sendMail_def Let_def split: prod.splits)
qed

lemma sendMail_attempts:
  "attempts (snd (sendMail e net msg)) =
     (if truthy (RESEND_API_KEY e) then
        (if succeeded (resend_try net) then [Resend]
         else Resend # (if fst (createTransport e) then [Smtp] else []))
      else (if fst (createTransport e) then [Smtp] else []))"
proof (cases "truthy (RESEND_API_KEY e)")
  case True
  then show ?thesis
    using smtp_part_attempts[of e net "sender e" msg]
    by (cases "resend_try net")
       (auto simp: sendMail_def Let_def attempts_append sender_warning_def split: prod.splits)
next
  case False
  then show ?thesis
    using smtp_part_attempts[of e net "sender e" msg]
    by (auto simp: sendMail_def Let_def attempts_append sender_warning_def split: prod.splits)
qed

lemma resend_try_fails:
  "fetch_result net = Inl err \<Longrightarrow> \<not> succeeded (resend_try net)"
  "fetch_result net = Inr res \<Longrightarrow> \<not> res_ok res \<Longrightarrow> \<not> succeeded (resend_try net)"
  by (auto simp: resend_try_def split: sum.splits)

lemma subscribe_independent:
  "fst (subscribe e net email0 d) = fst (subscribe e' net' email0 d)"
  "fst (snd (subscribe e net email0 d)) = fst (snd (subscribe e' net' email0 d))"
  by (auto simp: subscribe_def Let_def split: sum.splits)

lemma create_post_independent:
  "fst (create_post e net u form d) = fst (create_post e' net' u form d)"
  "fst (snd (create_post e net u form d)) = fst (snd (create_post e' net' u form d))"
  by (auto simp: create_post_def Let_def split: sum.splits option.splits)

lemma broadcast_independent:
  "fst (broadcast e net u s m d) = fst (broadcast e' net' u s m d)"
  by (auto simp: broadcast_def Let_def split: option.splits)

lemma succeeded_iff: "succeeded x \<longleftrightarrow> (\<exists>v. x = Inr v)"
  by (cases x) simp_all

lemma resend_try_accepted: "succeeded (resend_try net) \<longleftrightarrow> resend_accepted net"
  by (auto simp: resend_try_def split: sum.splits)

lemma createTransport_configured: "fst (createTransport e) \<longleftrightarrow> smtp_configured e"
  by (simp add: createTransport_def)

lemma sendMail_boolean:
  "fst (sendMail e net msg) =
     Inr ((truthy (RESEND_API_KEY e) \<and> resend_accepted net) \<or>
          (smtp_configured e \<and> (\<exists>messageId. smtp_result net = Inr messageId)))"
  by (simp only: sendMail_result resend_try_accepted createTransport_configured
        succeeded_iff[of "smtp_result net"])

lemma sendMail_calls:
  "attempts (snd (sendMail e net msg)) =
     (if truthy (RESEND_API_KEY e) then
        (if resend_accepted net then [Resend]
         else Resend # (if smtp_configured e then [Smtp] else []))
      else (if smtp_configured e then [Smtp] else []))"
  by (simp only: sendMail_attempts resend_try_accepted createTransport_configured)

lemma smtp_part_failure_logged:
  "smtp_configured e \<Longrightarrow> smtp_result net = Inl err \<Longrightarrow>
     Failed ''SMTP send failed'' err \<in> set (snd (smtp_part e net a msg))"
  "\<not> smtp_configured e \<Longrightarrow> disabled_warning \<in> set (snd (smtp_part e net a msg))"
  by (auto simp: smtp_part_def createTransport_def disabled_warning_def)

lemma sendMail_smtp_failure_logged:
  assumes "truthy (RESEND_API_KEY e) \<longrightarrow> \<not> resend_accepted net"
  shows "smtp_configured e \<Longrightarrow> smtp_result net = Inl err \<Longrightarrow>
           Failed ''SMTP send failed'' err \<in> set (snd (sendMail e net msg))"
    and "\<not> smtp_configured e \<Longrightarrow> disabled_warning \<in> set (snd (sendMail e net msg))"
proof -
  have r: "truthy (RESEND_API_KEY e) \<Longrightarrow> \<exists>err. resend_try net = Inl err"
    using assms resend_try_accepted[of net] by (cases "resend_try net") auto
  show "smtp_configured e \<Longrightarrow> smtp_result net = Inl err \<Longrightarrow>
           Failed ''SMTP send failed'' err \<in> set (snd (sendMail e net msg))"
    using r smtp_part_failure_logged(1)[of e net err "sender e" msg]
    by (cases "truthy (RESEND_API_KEY e)") (auto simp: sendMail_def Let_def split: prod.splits)
  show "\<not> smtp_configured e \<Longrightarrow> disabled_warning \<in> set (snd (sendMail e net msg))"
    using r smtp_part_failure_logged(2)[of e net "sender e" msg]
    by (cases "truthy (RESEND_API_KEY e)") (auto simp: sendMail_def Let_def split: prod.splits)
qed

lemma sendMail_resend_failure_logged:
  assumes "truthy (RESEND_API_KEY e)"
  shows "fetch_result net = Inl err \<Longrightarrow>
           Failed ''Resend send failed'' err \<in> set (snd (sendMail e net msg))"
    and "fetch_result net = Inr res \<Longrightarrow> \<not> res_ok res \<Longrightarrow> res_text res = Inr errBody \<Longrightarrow>
           Failed ''Resend send failed'' (ResendStatus (res_status res) errBody)
             \<in> set (snd (sendMail e net msg))"
  using assms by (auto simp: sendMail_def Let_def resend_try_def split: prod.splits)

text \<open>
  Claim C8. With an API key (a non-empty \<open>RESEND_API_KEY\<close>) the HTTPS provider is the
  first call. When \<open>fetch\<close> resolves with a success response whose JSON body is read, it
  is the only call and the result is \<open>true\<close>. When \<open>fetch\<close> is rejected or the response
  is not a success, the failure is logged and, if \<open>SMTP_HOST\<close>, \<open>SMTP_USER\<close> and
  \<open>SMTP_PASS\<close> are all set, the relay is called next and its answer is the result.
  Without a key only the relay is called, if it is configured. With no key and an SMTP
  variable missing nothing is called, the result is \<open>false\<close> and the "Email disabled"
  warning is logged. Whenever every configured provider fails, the result is \<open>false\<close>
  and the log holds the relay's failure, or that warning when there is no relay. The
  response and the stored data of subscribing, publishing and broadcasting do not depend
  on the mail configuration or on what the providers answer.
\<close>

theorem delivery_order:
  "(truthy (RESEND_API_KEY e) \<longrightarrow>
      attempts (snd (sendMail e net msg)) \<noteq> [] \<and> hd (attempts (snd (sendMail e net msg))) = Resend)
   \<and> (truthy (RESEND_API_KEY e) \<and> fetch_result net = Inr res \<and> res_ok res \<and>
       res_json res = Inr data_id \<longrightarrow>
        attempts (snd (sendMail e net msg)) = [Resend] \<and> fst (sendMail e net msg) = Inr True)
   \<and> (truthy (RESEND_API_KEY e) \<and> fetch_result net = Inl err \<longrightarrow>
        attempts (snd (sendMail e net msg)) = Resend # (if smtp_configured e then [Smtp] else [])
        \<and> Failed ''Resend send failed'' err \<in> set (snd (sendMail e net msg)))
   \<and> (truthy (RESEND_API_KEY e) \<and> fetch_result net = Inr res \<and> \<not> res_ok res \<longrightarrow>
        attempts (snd (sendMail e net msg)) = Resend # (if smtp_configured e then [Smtp] else []))
   \<and> (truthy (RESEND_API_KEY e) \<and> \<not> resend_accepted net \<and> smtp_configured e \<longrightarrow>
        attempts (snd (sendMail e net msg)) = [Resend, Smtp]
        \<and> fst (sendMail e net msg) = Inr (\<exists>messageId. smtp_result net = Inr messageId))
   \<and> (\<not> truthy (RESEND_API_KEY e) \<and> smtp_configured e \<longrightarrow>
        attempts (snd (sendMail e net msg)) = [Smtp]
        \<and> fst (sendMail e net msg) = Inr (\<exists>messageId. smtp_result net = Inr messageId))
   \<and> (\<not> truthy (RESEND_API_KEY e) \<and> \<not> smtp_configured e \<longrightarrow>
        attempts (snd (sendMail e net msg)) = [] \<and> fst (sendMail e net msg) = Inr False
        \<and> disabled_warning \<in> set (snd (sendMail e net msg)))
   \<and> ((truthy (RESEND_API_KEY e) \<longrightarrow> \<not> resend_accepted net) \<and>
       (smtp_configured e \<longrightarrow> smtp_result net = Inl err') \<longrightarrow>
        fst (sendMail e net msg) = Inr False
        \<and> (if smtp_configured e then Failed ''SMTP send failed'' err' else disabled_warning)
             \<in> set (snd (sendMail e net msg)))
   \<and> fst (subscribe e w email0 d) = fst (subscribe e' w' email0 d)
   \<and> fst (snd (subscribe e w email0 d)) = fst (snd (subscribe e' w' email0 d))
   \<and> fst (create_post e w u form d) = fst (create_post e' w' u form d)
   \<and> fst (snd (create_post e w u form d)) = fst (snd (create_post e' w' u form d))
   \<and> fst (broadcast e w u subject0 message0 d) = fst (broadcast e' w' u subject0 message0 d)"
proof -
  note a = sendMail_boolean[of e net msg]
  note b = sendMail_calls[of e net msg]
  have c1: "truthy (RESEND_API_KEY e) \<and> fetch_result net = Inl err \<longrightarrow>
        attempts (snd (sendMail e net msg)) = Resend # (if smtp_configured e then [Smtp] else [])
        \<and> Failed ''Resend send failed'' err \<in> set (snd (sendMail e net msg))"
    using b sendMail_resend_failure_logged(1)[where e = e and net = net and err = err and msg = msg] by auto
  have c2: "truthy (RESEND_API_KEY e) \<and> fetch_result net = Inr res \<and> \<not> res_ok res \<longrightarrow>
        attempts (snd (sendMail e net msg)) = Resend # (if smtp_configured e then [Smtp] else [])"
    using b by auto
  have c3: "(truthy (RESEND_API_KEY e) \<longrightarrow> \<not> resend_accepted net) \<and>
       (smtp_configured e \<longrightarrow> smtp_result net = Inl err') \<longrightarrow>
        fst (sendMail e net msg) = Inr False
        \<and> (if smtp_configured e then Failed ''SMTP send failed'' err' else disabled_warning)
             \<in> set (snd (sendMail e net msg))"
  proof (intro impI, elim conjE)
    assume r: "truthy (RESEND_API_KEY e) \<longrightarrow> \<not> resend_accepted net"
      and s: "smtp_configured e \<longrightarrow> smtp_result net = Inl err'"
    have "fst (sendMail e net msg) = Inr False" using a r s by auto
    moreover have "(if smtp_configured e then Failed ''SMTP send failed'' err' else disabled_warning)
             \<in> set (snd (sendMail e net msg))"
      using sendMail_smtp_failure_logged(1)[OF r, where err = err' and msg = msg]
        sendMail_smtp_failure_logged(2)[OF r, where msg = msg] s by auto
    ultimately show "fst (sendMail e net msg) = Inr False
        \<and> (if smtp_configured e then Failed ''SMTP send failed'' err' else disabled_warning)
             \<in> set (snd (sendMail e net msg))" ..
  qed
  have c4: "\<not> truthy (RESEND_API_KEY e) \<and> \<not> smtp_configured e \<longrightarrow>
        attempts (snd (sendMail e net msg)) = [] \<and> fst (sendMail e net msg) = Inr False
        \<and> disabled_warning \<in> set (snd (sendMail e net msg))"
    using a b sendMail_smtp_failure_logged(2)[where e = e and net = net and msg = msg] by auto
  have c5: "truthy (RESEND_API_KEY e) \<and> fetch_result net = Inr res \<and> res_ok res \<and>
       res_json res = Inr data_id \<longrightarrow>
        attempts (snd (sendMail e net msg)) = [Resend] \<and> fst (sendMail e net msg) = Inr True"
    using a b by auto
  have c6: "truthy (RESEND_API_KEY e) \<longrightarrow>
      attempts (snd (sendMail e net msg)) \<noteq> [] \<and> hd (attempts (snd (sendMail e net msg))) = Resend"
    using b by simp
  have c7: "truthy (RESEND_API_KEY e) \<and> \<not> resend_accepted net \<and> smtp_configured e \<longrightarrow>
        attempts (snd (sendMail e net msg)) = [Resend, Smtp]
        \<and> fst (sendMail e net msg) = Inr (\<exists>messageId. smtp_result net = Inr messageId)"
    using a b by auto
  have c8: "\<not> truthy (RESEND_API_KEY e) \<and> smtp_configured e \<longrightarrow>
        attempts (snd (sendMail e net msg)) = [Smtp]
        \<and> fst (sendMail e net msg) = Inr (\<exists>messageId. smtp_result net = Inr messageId)"
    using a b by auto
  have d: "fst (subscribe e w email0 d) = fst (subscribe e' w' email0 d)
   \<and> fst (snd (subscribe e w email0 d)) = fst (snd (subscribe e' w' email0 d))
   \<and> fst (create_post e w u form d) = fst (create_post e' w' u form d)
   \<and> fst (snd (create_post e w u form d)) = fst (snd (create_post e' w' u form d))
   \<and> fst (broadcast e w u subject0 message0 d) = fst (broadcast e' w' u subject0 message0 d)"
    by (intro conjI)
       (rule subscribe_independent create_post_independent broadcast_independent)+
  from c6 c5 c1 c2 c7 c8 c4 c3 d show ?thesis by (intro conjI) (elim conjE, assumption)+
qed

text \<open>
  Claim C10. The promise of \<open>sendMail\<close> is never rejected. It is fulfilled with \<open>true\<close>
  exactly when there is an API key and \<open>fetch\<close> resolved with a success response whose
  JSON body was read, or the three SMTP variables are set and the relay accepted the
  message. So an accepted HTTPS delivery and an accepted relay delivery give \<open>true\<close>,
  and missing configuration, a rejected \<open>fetch\<close>, a non-success response, an unreadable
  body and a failing relay are all folded into \<open>false\<close>.
\<close>

theorem sendMail_never_rejects:
  "(\<forall>err. fst (sendMail e net msg) \<noteq> Inl err)
   \<and> fst (sendMail e net msg) =
       Inr ((truthy (RESEND_API_KEY e) \<and>
             (\<exists>res data_id. fetch_result net = Inr res \<and> res_ok res \<and> res_json res = Inr data_id))
            \<or> (truthy (SMTP_HOST e) \<and> truthy (SMTP_USER e) \<and> truthy (SMTP_PASS e) \<and>
                (\<exists>messageId. smtp_result net = Inr messageId)))
   \<and> (truthy (RESEND_API_KEY e) \<and> fetch_result net = Inr res \<and> res_ok res \<and>
       res_json res = Inr data_id \<longrightarrow> fst (sendMail e net msg) = Inr True)
   \<and> (truthy (SMTP_HOST e) \<and> truthy (SMTP_USER e) \<and> truthy (SMTP_PASS e) \<and>
       smtp_result net = Inr messageId \<longrightarrow> fst (sendMail e net msg) = Inr True)
   \<and> (\<not> truthy (RESEND_API_KEY e) \<and>
       \<not> (truthy (SMTP_HOST e) \<and> truthy (SMTP_USER e) \<and> truthy (SMTP_PASS e)) \<longrightarrow>
        fst (sendMail e net msg) = Inr False)
   \<and> (\<not> truthy (RESEND_API_KEY e) \<and> smtp_result net = Inl err' \<longrightarrow>
        fst (sendMail e net msg) = Inr False)
   \<and> (fetch_result net = Inl err \<and> smtp_result net = Inl err' \<longrightarrow>
        fst (sendMail e net msg) = Inr False)
   \<and> (fetch_result net = Inr res \<and> \<not> res_ok res \<and> smtp_result net = Inl err' \<longrightarrow>
        fst (sendMail e net msg) = Inr False)
   \<and> (fetch_result net = Inr res \<and> res_json res = Inl err \<and> smtp_result net = Inl err' \<longrightarrow>
        fst (sendMail e net msg) = Inr False)
   \<and> (fetch_result net = Inl err \<and>
       \<not> (truthy (SMTP_HOST e) \<and> truthy (SMTP_USER e) \<and> truthy (SMTP_PASS e)) \<longrightarrow>
        fst (sendMail e net msg) = Inr False)"
proof -
  note a = sendMail_boolean[of e net msg]
  show ?thesis
    apply (intro conjI impI allI)
    using a by auto
qed

lemma smtp_part_log:
  "list_all (\<lambda>ev. case ev of Attempt ch f t s \<Rightarrow> f = a | _ \<Rightarrow> True) (snd (smtp_part e net a msg))
   \<and> count_list (snd (smtp_part e net a msg)) sender_warning = 0"
  by (cases "smtp_result net") (auto simp: smtp_part_def createTransport_def sender_warning_def)

text \<open>
  Claim C9. The sender is \<open>MAIL_FROM\<close> when set, else \<open>SMTP_USER\<close> when set, else
  \<open>onboarding@resend.dev\<close>; every provider call of a send carries that sender; and the
  default-sender warning is logged once when neither variable is set and not at all
  otherwise.
\<close>

theorem sender_resolution:
  "(truthy (MAIL_FROM e) \<longrightarrow> MAIL_FROM e = Some (sender e))
   \<and> (\<not> truthy (MAIL_FROM e) \<and> truthy (SMTP_USER e) \<longrightarrow> SMTP_USER e = Some (sender e))
   \<and> (\<not> truthy (MAIL_FROM e) \<and> \<not> truthy (SMTP_USER e) \<longrightarrow> sender e = ''onboarding@resend.dev'')
   \<and> list_all (\<lambda>ev. case ev of Attempt ch f t s \<Rightarrow> f = sender e | _ \<Rightarrow> True)
        (snd (sendMail e net msg))
   \<and> count_list (snd (sendMail e net msg)) sender_warning =
        (if \<not> truthy (MAIL_FROM e) \<and> \<not> truthy (SMTP_USER e) then 1 else 0)"
proof -
  have s: "(truthy (MAIL_FROM e) \<longrightarrow> MAIL_FROM e = Some (sender e))
   \<and> (\<not> truthy (MAIL_FROM e) \<and> truthy (SMTP_USER e) \<longrightarrow> SMTP_USER e = Some (sender e))
   \<and> (\<not> truthy (MAIL_FROM e) \<and> \<not> truthy (SMTP_USER e) \<longrightarrow> sender e = ''onboarding@resend.dev'')"
    by (cases "MAIL_FROM e"; cases "SMTP_USER e") (auto simp: sender_def)
  have l: "list_all (\<lambda>ev. case ev of Attempt ch f t s \<Rightarrow> f = sender e | _ \<Rightarrow> True)
        (snd (sendMail e net msg))"
    using smtp_part_log[of "sender e" e net msg]
    by (cases "resend_try net")
       (auto simp: sendMail_def Let_def sender_warning_def split: prod.splits)
  have c: "count_list (snd (sendMail e net msg)) sender_warning =
        (if \<not> truthy (MAIL_FROM e) \<and> \<not> truthy (SMTP_USER e) then 1 else 0)"
    using smtp_part_log[of "sender e" e net msg]
    by (cases "resend_try net")
       (auto simp: sendMail_def Let_def sender_warning_def split: prod.splits)
  show ?thesis using s l c by blast
qed

section \<open>Properties of the handlers\<close>

lemma notify_all_counts:
  "batch_total (notify_all e w subject subs) = length subs
   \<and> batch_sent (notify_all e w subject subs) = length subs
   \<and> batch_failed (notify_all e w subject subs) = 0"
proof -
  have "filter is_fulfilled (map settle (map (\<lambda>s. fst (sendMail e (w (sub_email s)) (m s))) subs))
        = map settle (map (\<lambda>s. fst (sendMail e (w (sub_email s)) (m s))) subs)" for m
    by (induction subs) (simp_all add: sendMail_result)
  then show ?thesis by (simp add: notify_all_def allSettled_def Let_def)
qed

text \<open>
  Claim C1 at a failing input: one subscriber, no provider configured. The send is
  fulfilled with \<open>false\<close>, and the broadcast reports one message sent and none failed,
  because it counts fulfilled promises (see \<open>notify_all_counts\<close>).
\<close>

theorem broadcast_counts_failed_send_as_sent:
  "fst (sendMail no_mail_env unreachable \<lparr>msg_to = ''a@b.c'', msg_subject = ''News''\<rparr>) = Inr False
   \<and> snd (broadcast no_mail_env (\<lambda>to. unreachable) (Some 1) (Some ''News'') (Some ''Hi'') one_subscriber)
       = Some \<lparr>batch_results = [Fulfilled False], batch_total = 1, batch_sent = 1, batch_failed = 0\<rparr>"
  by (simp add: broadcast_def notify_all_def allSettled_def sendMail_result createTransport_def
      no_mail_env_def one_subscriber_def trim_def is_space_def Let_def)

lemma exec_delete_post_cascade:
  "foreign_keys conn \<Longrightarrow> list_ex (\<lambda>p. post_id p = pid) (posts d) \<Longrightarrow>
     list_all (\<lambda>c. comment_post_id c \<noteq> pid) (comments (exec_delete_post conn pid d))"
  by (simp add: exec_delete_post_def list_all_iff)

lemma delete_post_missing:
  assumes "\<not> list_ex (\<lambda>p. post_id p = pid) (posts d)"
  shows "delete_post (Some uid) pid d = (Redirect ''/admin'', d)"
proof -
  have "filter (\<lambda>p. post_id p \<noteq> pid) (posts d) = posts d"
    using assms by (simp add: list_ex_iff filter_id_conv)
  then show ?thesis using assms by (simp add: delete_post_def exec_delete_post_def)
qed

text \<open>
  Claim C2 at a failing input: a post with one comment. Deleting the post through the
  route removes the post and keeps the comment, since the connection opened by
  \<open>getDb\<close> does not enforce foreign keys.
\<close>

theorem delete_post_keeps_comments:
  "delete_post (Some 1) 1 post_with_comment =
     (Redirect ''/admin'', post_with_comment\<lparr>posts := []\<rparr>)
   \<and> comments (snd (delete_post (Some 1) 1 post_with_comment)) =
       [\<lparr>comment_id = 1, comment_post_id = 1, comment_author = ''Anonymous'',
         comment_body = ''first''\<rparr>]"
  by (simp add: delete_post_def exec_delete_post_def getDb_def post_with_comment_def)

lemma delete_post_file_comments:
  "commentsCollection st = Some cs \<Longrightarrow>
     commentsCollection (snd (delete_post_file True j slug st)) =
       Some (filter (\<lambda>c. crow_slug c \<noteq> slug) cs)"
  by (simp add: delete_post_file_def requireAdmin_def Let_def split: option.splits)

lemma count_unique:
  "distinct (map f xs) \<Longrightarrow>
     length (filter (\<lambda>s. f s = k) xs) = (if k \<in> f ` set xs then 1 else 0)"
  by (induction xs) auto

lemma insert_subscriber_distinct:
  "distinct (map sub_email (subscribers d)) \<Longrightarrow> insert_subscriber email d = Inr d' \<Longrightarrow>
     distinct (map sub_email (subscribers d'))"
  by (auto simp: insert_subscriber_def list_ex_iff split: if_splits)

lemma subscribe_once:
  assumes "subscribe e w email0 d = (r1, d1, m1)"
    and "toLowerCase (trim (or_default email0 [])) = email" and "email \<noteq> []"
    and "distinct (map sub_email (subscribers d))"
  shows "length (filter (\<lambda>s. sub_email s = email) (subscribers d1)) = 1
         \<and> distinct (map sub_email (subscribers d1))
         \<and> (if list_ex (\<lambda>s. sub_email s = email) (subscribers d)
             then r1 = Redirect ''/?subscribed=0'' \<and> d1 = d
             else r1 = Redirect ''/?subscribed=1'')"
proof (cases "list_ex (\<lambda>s. sub_email s = email) (subscribers d)")
  case True
  then have "insert_subscriber email d = Inl SQLITE_CONSTRAINT" by (simp add: insert_subscriber_def)
  then have r: "r1 = Redirect ''/?subscribed=0''" "d1 = d"
    using assms(1,2,3) by (auto simp: subscribe_def Let_def)
  have "email \<in> sub_email ` set (subscribers d)" using True by (auto simp: list_ex_iff)
  then show ?thesis using r True count_unique[OF assms(4), of email] assms(4) by simp
next
  case False
  let ?d' = "d\<lparr>subscribers := subscribers d @ [\<lparr>sub_id = Suc (seq_subscribers d), sub_email = email\<rparr>],
               seq_subscribers := Suc (seq_subscribers d)\<rparr>"
  have i: "insert_subscriber email d = Inr ?d'" using False by (simp add: insert_subscriber_def)
  then have r: "r1 = Redirect ''/?subscribed=1''" "d1 = ?d'"
    using assms(1,2,3) by (auto simp: subscribe_def Let_def)
  have dd: "distinct (map sub_email (subscribers d1))"
    using insert_subscriber_distinct[OF assms(4) i] r by simp
  have "email \<in> sub_email ` set (subscribers d1)" using r by simp
  then show ?thesis using r False count_unique[OF dd, of email] dd by simp
qed

text \<open>
  Claim C7. Two subscription requests whose addresses trim and lower-case to the same
  non-empty address, on a table with unique addresses: afterwards exactly one row holds
  that address, the second request changes nothing, and both are answered with a
  redirect to the home page (\<open>subscribed=1\<close> for a new address, \<open>subscribed=0\<close> for a
  known one), never with an error.
\<close>

theorem subscribe_twice:
  assumes "subscribe e w email0 d = (r1, d1, m1)"
    and "subscribe e' w' email1 d1 = (r2, d2, m2)"
    and "toLowerCase (trim (or_default email0 [])) = email"
    and "toLowerCase (trim (or_default email1 [])) = email"
    and "email \<noteq> []"
    and "distinct (map sub_email (subscribers d))"
  shows "length (filter (\<lambda>s. sub_email s = email) (subscribers d2)) = 1
         \<and> (r1 = Redirect ''/?subscribed=1'' \<or> r1 = Redirect ''/?subscribed=0'')
         \<and> r2 = Redirect ''/?subscribed=0'' \<and> d2 = d1"
proof -
  note a = subscribe_once[OF assms(1,3,5,6)]
  then have dd: "distinct (map sub_email (subscribers d1))" by simp
  have ex: "list_ex (\<lambda>s. sub_email s = email) (subscribers d1)"
  proof (rule ccontr)
    assume "\<not> list_ex (\<lambda>s. sub_email s = email) (subscribers d1)"
    then have "filter (\<lambda>s. sub_email s = email) (subscribers d1) = []"
      by (auto simp: list_ex_iff filter_empty_conv)
    then show False using a by simp
  qed
  note b = subscribe_once[OF assms(2,4,5) dd]
  show ?thesis using a b ex by (auto split: if_splits)
qed

lemma create_post_success:
  assumes "create_post e w (Some uid) form d = (Redirect ''/admin'', d1, b1)"
  shows "\<exists>content. posts d1 = posts d @
           [\<lparr>post_id = Suc (seq_posts d), post_title = trim (or_default (form_title form) []),
             post_slug = slugify (trim (or_default (form_title form) [])),
             post_content = content\<rparr>]"
  using assms
  by (auto simp: create_post_def Let_def new_post_page_def insert_post_def
           split: if_splits sum.splits)

text \<open>
  Claim C6, as amended. In the SQL-backed route the stored slug is \<open>slugify\<close> of the
  trimmed title, whatever the database holds. After a successful creation, a valid
  request whose title has the same slug is answered with the new-post page and the
  error \<open>Title already used\<close>, and the database is unchanged.
\<close>

theorem slug_conflict_rejected:
  assumes "create_post e w (Some uid) form1 d = (Redirect ''/admin'', d1, b1)"
    and "slugify (trim (or_default (form_title form2) [])) =
         slugify (trim (or_default (form_title form1) []))"
    and "trim (or_default (form_title form2) []) \<noteq> []"
    and "trim (or_default (form_content form2) []) \<noteq> []"
  shows "post_slug (last (posts d1)) = slugify (trim (or_default (form_title form1) []))
         \<and> create_post e' w' (Some uid') form2 d1 =
             (new_post_page (trim (or_default (form_title form2) []))
                (trim (or_default (form_content form2) [])) ''Title already used'', d1, None)"
proof -
  obtain content where p: "posts d1 = posts d @
           [\<lparr>post_id = Suc (seq_posts d), post_title = trim (or_default (form_title form1) []),
             post_slug = slugify (trim (or_default (form_title form1) [])),
             post_content = content\<rparr>]"
    using create_post_success[OF assms(1)] by blast
  then have "list_ex (\<lambda>p. post_slug p = slugify (trim (or_default (form_title form2) []))) (posts d1)"
    using assms(2) by (simp add: list_ex_iff)
  then have "insert_post t (slugify (trim (or_default (form_title form2) []))) c d1 = Inl SQLITE_CONSTRAINT"
    for t c by (simp add: insert_post_def)
  then show ?thesis using p assms(3,4) by (simp add: create_post_def Let_def)
qed

section \<open>Instances\<close>

text \<open>Claim C3, the amended statement at a line with an upper-case extension.\<close>

theorem standalone_image_witness:
  "render_line ''  http://a/x.PNG '' =
     ''<div class=\"post-image\"><img src=\"http://a/x.PNG\" alt=\"image\" loading=\"lazy\"/></div>''"
proof -
  have t: "trim ''  http://a/x.PNG '' = ''http://'' @ ''a/x'' @ CHR ''.'' # ''PNG''"
    by (simp add: trim_def is_space_def)
  have e: "''png'' \<in> set image_exts" by (simp add: image_exts_def)
  have c: "map canonicalize ''PNG'' = map canonicalize ''png''" by code_simp
  have b: "\<forall>c \<in> set ''a/x''. \<not> is_space c" by (simp add: is_space_def)
  have "render_line ''  http://a/x.PNG '' = image_div (escapeHtml (trim ''  http://a/x.PNG ''))"
    by (rule standalone_image[OF t _ _ b e c]) simp_all
  then show ?thesis
    by (simp add: t image_div_def escapeHtml_def replace_char_def)
qed

text \<open>
  Claim C3 as stated fails where nothing stands between the scheme and the dot: the line
  is a single URL for \<open>urlRegex\<close> and ends in \<open>.png\<close>, and its image is wrapped in a
  paragraph.
\<close>

theorem standalone_image_counterexample:
  "match_urlRegex (trim ''http://.png'') = [''http://'' @ ''.png'']
   \<and> render_line ''http://.png'' =
       ''<p><div class=\"post-image\"><img src=\"http://.png\" alt=\"image\" loading=\"lazy\"/></div></p>''"
  by code_simp

text \<open>
  Claim C4 at a failing input: the URL \<open>http://a/?x&y\<close>. The callback escapes the match
  it took from the already escaped line, so the href is \<open>http://a/?x&amp;amp;y\<close>.
\<close>

theorem linkify_double_escapes:
  "render_line ''http://a/?x&y'' =
     ''<p><a href=\"http://a/?x&amp;amp;y\" target=\"_blank\" rel=\"noopener noreferrer\">http://a/?x&amp;amp;y</a></p>''"
  by code_simp

text \<open>Claim C5 at the line \<open>a<b\<close>.\<close>

theorem user_markup_escaped_witness:
  "Lit (CHR ''<'') \<in> set (url_pieces ''a<b'') \<and> render_line ''a<b'' = ''<p>a&lt;b</p>''"
proof -
  have p: "url_pieces ''a<b'' = [Lit (CHR ''a''), Lit (CHR ''<''), Lit (CHR ''b'')]"
    by (simp add: urlRegex_at_def)
  then have h: "Lit (CHR ''<'') \<in> set (url_pieces ''a<b'')" by simp
  show ?thesis using h user_markup_escaped[OF h] p
    by (simp add: escapeHtml_def replace_char_def)
qed

text \<open>
  Claim C6 as stated fails in server.js: publishing the title \<open>Hello\<close> twice succeeds
  twice, and the second body replaces the first in \<open>hello.md\<close>.
\<close>

theorem publish_overwrites:
  "fst (publish ''hello'' ''1'' ''t1'' ''t1'' True False (Some ''Hello'') (Some ''first'') empty_store)
     = Redirect ''/p/hello''
   \<and> post_files (snd (publish ''hello'' ''1'' ''t1'' ''t1'' True False (Some ''Hello'') (Some ''first'')
        empty_store)) ''hello.md''
     = Some \<lparr>file_title = ''Hello'', file_createdAt = ''t1'', file_body = ''first''\<rparr>
   \<and> fst (publish ''hello'' ''2'' ''t2'' ''t2'' True False (Some ''Hello'') (Some ''second'')
        (snd (publish ''hello'' ''1'' ''t1'' ''t1'' True False (Some ''Hello'') (Some ''first'')
           empty_store)))
     = Redirect ''/p/hello''
   \<and> post_files (snd (publish ''hello'' ''2'' ''t2'' ''t2'' True False (Some ''Hello'') (Some ''second'')
        (snd (publish ''hello'' ''1'' ''t1'' ''t1'' True False (Some ''Hello'') (Some ''first'')
           empty_store)))) ''hello.md''
     = Some \<lparr>file_title = ''Hello'', file_createdAt = ''t2'', file_body = ''second''\<rparr>"
  by (simp add: publish_def requireAdmin_def empty_store_def Let_def)

text \<open>Claim C6, the amended statement for the titles \<open>A b\<close> and \<open>a  B!\<close>.\<close>

theorem slug_conflict_rejected_witness:
  "fst (create_post no_mail_env (\<lambda>to. unreachable) (Some 1)
          \<lparr>form_title = Some ''a  B!'', form_content = Some ''y'', form_files = [],
            form_protocol = ''http'', form_host = ''h''\<rparr>
          (fst (snd (create_post no_mail_env (\<lambda>to. unreachable) (Some 1)
             \<lparr>form_title = Some ''A b'', form_content = Some ''x'', form_files = [],
               form_protocol = ''http'', form_host = ''h''\<rparr> empty_db))))
     = new_post_page ''a  B!'' ''y'' ''Title already used''"
proof -
  let ?f1 = "\<lparr>form_title = Some ''A b'', form_content = Some ''x'', form_files = [],
               form_protocol = ''http'', form_host = ''h''\<rparr>"
  let ?f2 = "\<lparr>form_title = Some ''a  B!'', form_content = Some ''y'', form_files = [],
               form_protocol = ''http'', form_host = ''h''\<rparr>"
  let ?r = "create_post no_mail_env (\<lambda>to. unreachable) (Some 1) ?f1 empty_db"
  have s1: "slugify ''A b'' = ''a-b''" by code_simp
  have s2: "slugify ''a  B!'' = ''a-b''" by code_simp
  have t: "trim ''A b'' = ''A b''" "trim ''a  B!'' = ''a  B!''" "trim ''x'' = ''x''" "trim ''y'' = ''y''"
    by (simp_all add: trim_def is_space_def)
  have "fst ?r = Redirect ''/admin''"
    by (simp add: create_post_def Let_def t s1 insert_post_def empty_db_def)
  then have a: "?r = (Redirect ''/admin'', fst (snd ?r), snd (snd ?r))"
    by (metis prod.collapse)
  show ?thesis
    using slug_conflict_rejected[OF a, of ?f2 no_mail_env "\<lambda>to. unreachable" 1]
    by (simp add: t s1 s2)
qed

text \<open>Claim C7 for the inputs \<open> A@b.c\<close> and \<open>a@B.C \<close> on an empty table.\<close>

theorem subscribe_twice_witness:
  "length (filter (\<lambda>s. sub_email s = ''a@b.c'')
     (subscribers (fst (snd (subscribe no_mail_env (\<lambda>to. unreachable) (Some ''a@B.C '')
        (fst (snd (subscribe no_mail_env (\<lambda>to. unreachable) (Some '' A@b.c'') empty_db)))))))) = 1
   \<and> fst (subscribe no_mail_env (\<lambda>to. unreachable) (Some ''a@B.C '')
        (fst (snd (subscribe no_mail_env (\<lambda>to. unreachable) (Some '' A@b.c'') empty_db))))
       = Redirect ''/?subscribed=0''"
proof -
  let ?x = "subscribe no_mail_env (\<lambda>to. unreachable) (Some '' A@b.c'') empty_db"
  let ?y = "subscribe no_mail_env (\<lambda>to. unreachable) (Some ''a@B.C '') (fst (snd ?x))"
  have a: "?x = (fst ?x, fst (snd ?x), snd (snd ?x))" by simp
  have b: "?y = (fst ?y, fst (snd ?y), snd (snd ?y))" by simp
  have n0: "toLowerCase (trim (or_default (Some '' A@b.c'') [])) = ''a@b.c''" by code_simp
  have n1: "toLowerCase (trim (or_default (Some ''a@B.C '') [])) = ''a@b.c''" by code_simp
  have d: "distinct (map sub_email (subscribers empty_db))" by (simp add: empty_db_def)
  have e: "''a@b.c'' \<noteq> []" by simp
  show ?thesis using subscribe_twice[OF a b n0 n1 e d] by blast
qed

text \<open>
  Claim C8 at five sends: a rejected \<open>fetch\<close> with an accepting relay, a refused request
  with an accepting relay, an accepted request with no relay, nothing configured, and both
  providers failing.
\<close>

theorem delivery_order_witness:
  "attempts (snd (sendMail fallback_env smtp_only_up \<lparr>msg_to = ''a@b.c'', msg_subject = ''Hi''\<rparr>))
     = [Resend, Smtp]
   \<and> fst (sendMail fallback_env smtp_only_up \<lparr>msg_to = ''a@b.c'', msg_subject = ''Hi''\<rparr>) = Inr True
   \<and> Failed ''Resend send failed'' (Thrown ''fetch failed'')
       \<in> set (snd (sendMail fallback_env smtp_only_up \<lparr>msg_to = ''a@b.c'', msg_subject = ''Hi''\<rparr>))
   \<and> attempts (snd (sendMail fallback_env resend_refuses \<lparr>msg_to = ''a@b.c'', msg_subject = ''Hi''\<rparr>))
     = [Resend, Smtp]
   \<and> attempts (snd (sendMail key_only_env resend_up \<lparr>msg_to = ''a@b.c'', msg_subject = ''Hi''\<rparr>))
     = [Resend]
   \<and> fst (sendMail key_only_env resend_up \<lparr>msg_to = ''a@b.c'', msg_subject = ''Hi''\<rparr>) = Inr True
   \<and> attempts (snd (sendMail no_mail_env smtp_only_up \<lparr>msg_to = ''a@b.c'', msg_subject = ''Hi''\<rparr>))
     = []
   \<and> fst (sendMail no_mail_env smtp_only_up \<lparr>msg_to = ''a@b.c'', msg_subject = ''Hi''\<rparr>) = Inr False
   \<and> fst (sendMail fallback_env unreachable \<lparr>msg_to = ''a@b.c'', msg_subject = ''Hi''\<rparr>) = Inr False
   \<and> Failed ''SMTP send failed'' (Thrown ''connect ETIMEDOUT'')
       \<in> set (snd (sendMail fallback_env unreachable \<lparr>msg_to = ''a@b.c'', msg_subject = ''Hi''\<rparr>))"
proof -
  let ?m = "\<lparr>msg_to = ''a@b.c'', msg_subject = ''Hi''\<rparr>"
  note t1 = delivery_order[where e = fallback_env and net = smtp_only_up and msg = ?m
      and err = "Thrown ''fetch failed''"]
  note t2 = delivery_order[where e = fallback_env and net = resend_refuses and msg = ?m
      and res = "\<lparr>res_ok = False, res_status = 403, res_text = Inr ''forbidden'',
                  res_json = Inl (Thrown ''body used'')\<rparr>"]
  note t3 = delivery_order[where e = key_only_env and net = resend_up and msg = ?m
      and res = accepted_response and data_id = "Some ''49a3999c''"]
  note t4 = delivery_order[where e = no_mail_env and net = smtp_only_up and msg = ?m]
  note t5 = delivery_order[where e = fallback_env and net = unreachable and msg = ?m
      and err' = "Thrown ''connect ETIMEDOUT''"]
  have a: "attempts (snd (sendMail fallback_env smtp_only_up ?m)) = [Resend, Smtp]
     \<and> fst (sendMail fallback_env smtp_only_up ?m) = Inr True
     \<and> Failed ''Resend send failed'' (Thrown ''fetch failed'')
         \<in> set (snd (sendMail fallback_env smtp_only_up ?m))"
    using t1 by (simp add: fallback_env_def smtp_only_up_def)
  have b: "attempts (snd (sendMail fallback_env resend_refuses ?m)) = [Resend, Smtp]"
    using t2 by (simp add: fallback_env_def resend_refuses_def)
  have c: "attempts (snd (sendMail key_only_env resend_up ?m)) = [Resend]
     \<and> fst (sendMail key_only_env resend_up ?m) = Inr True"
    using t3 by (simp add: key_only_env_def resend_up_def accepted_response_def)
  have d: "attempts (snd (sendMail no_mail_env smtp_only_up ?m)) = []
     \<and> fst (sendMail no_mail_env smtp_only_up ?m) = Inr False"
    using t4 by (simp add: no_mail_env_def)
  have e: "fst (sendMail fallback_env unreachable ?m) = Inr False
     \<and> Failed ''SMTP send failed'' (Thrown ''connect ETIMEDOUT'')
         \<in> set (snd (sendMail fallback_env unreachable ?m))"
    using t5 by (simp add: fallback_env_def unreachable_def)
  from a b c d e show ?thesis by blast
qed

text \<open>Claim C9 where only \<open>SMTP_USER\<close> is set.\<close>

theorem sender_resolution_witness:
  "sender fallback_env = ''blog@example.org''
   \<and> count_list (snd (sendMail fallback_env smtp_only_up \<lparr>msg_to = ''a@b.c'', msg_subject = ''Hi''\<rparr>))
        sender_warning = 0"
  using sender_resolution[of fallback_env smtp_only_up "\<lparr>msg_to = ''a@b.c'', msg_subject = ''Hi''\<rparr>"]
  by (simp add: fallback_env_def)

text \<open>
  Claim C10 at five sends: accepted by the HTTPS provider, accepted by the relay after a
  rejected \<open>fetch\<close>, both failing, nothing configured, and a success response whose
  body cannot be read with no relay.
\<close>

theorem sendMail_never_rejects_witness:
  "fst (sendMail key_only_env resend_up \<lparr>msg_to = ''a@b.c'', msg_subject = ''Hi''\<rparr>) = Inr True
   \<and> fst (sendMail fallback_env smtp_only_up \<lparr>msg_to = ''a@b.c'', msg_subject = ''Hi''\<rparr>) = Inr True
   \<and> fst (sendMail fallback_env unreachable \<lparr>msg_to = ''a@b.c'', msg_subject = ''Hi''\<rparr>) = Inr False
   \<and> fst (sendMail no_mail_env smtp_only_up \<lparr>msg_to = ''a@b.c'', msg_subject = ''Hi''\<rparr>) = Inr False
   \<and> fst (sendMail key_only_env resend_unreadable \<lparr>msg_to = ''a@b.c'', msg_subject = ''Hi''\<rparr>)
       = Inr False"
proof -
  let ?m = "\<lparr>msg_to = ''a@b.c'', msg_subject = ''Hi''\<rparr>"
  note t1 = sendMail_never_rejects[where e = key_only_env and net = resend_up and msg = ?m
      and res = accepted_response and data_id = "Some ''49a3999c''"]
  note t2 = sendMail_never_rejects[where e = fallback_env and net = smtp_only_up and msg = ?m
      and messageId = "''<id@example.org>''"]
  note t3 = sendMail_never_rejects[where e = fallback_env and net = unreachable and msg = ?m
      and err = "Thrown ''fetch failed''" and err' = "Thrown ''connect ETIMEDOUT''"]
  note t4 = sendMail_never_rejects[where e = no_mail_env and net = smtp_only_up and msg = ?m]
  note t5 = sendMail_never_rejects[where e = key_only_env and net = resend_unreadable and msg = ?m]
  have a: "fst (sendMail key_only_env resend_up ?m) = Inr True"
    using t1 by (simp add: key_only_env_def resend_up_def accepted_response_def)
  have b: "fst (sendMail fallback_env smtp_only_up ?m) = Inr True"
    using t2 by (simp add: fallback_env_def smtp_only_up_def)
  have c: "fst (sendMail fallback_env unreachable ?m) = Inr False"
    using t3 by (simp add: unreachable_def)
  have d: "fst (sendMail no_mail_env smtp_only_up ?m) = Inr False"
    using t4 by (simp add: no_mail_env_def)
  have e: "fst (sendMail key_only_env resend_unreadable ?m) = Inr False"
    using t5 by (simp add: key_only_env_def resend_unreadable_def)
  from a b c d e show ?thesis by blast
qed

end
